theory Spec2Isabelle
  imports Main "HOL-Library.AList" "HOL-Library.Multiset"
begin

section \<open>Game state of server.js\<close>

text \<open>
  The server keeps one registry \<open>rooms\<close>, a JavaScript \<open>Map\<close> from room code to room
  object. A \<open>Map\<close> is modelled as an association list with \<open>AList.update\<close> for
  \<open>Map.set\<close>: an existing key keeps its position and gets the new value, a new key is
  appended, which is the iteration order of a \<open>Map\<close>. Connection ids are the socket
  ids handed out by the transport.
\<close>

type_synonym sid = string

datatype phase = LOBBY | NIGHT | DAY | VOTE | RESOLVE | END

datatype role = MURDERER | DETECTIVE | DOCTOR | CIVILIAN

record player =
  pid :: sid
  name :: string
  alive :: bool
  voteFor :: "string option"

record night_actions =
  kill :: "string option"
  save :: "string option"
  inspect :: "string option"

text \<open>The field \<open>timers\<close> holds the object \<open>{ endsAt?: number }\<close>: \<open>None\<close> is \<open>{}\<close>.\<close>

record room =
  code :: string
  hostId :: "sid option"
  phase :: phase
  players :: "(sid \<times> player) list"
  assignments :: "(sid \<times> role) list"
  nightActions :: night_actions
  timers :: "int option"

subsection \<open>Outgoing messages\<close>

datatype public_player = PublicPlayer sid string bool "string option"

datatype alignment = evil | good

datatype message =
    room_state string phase "public_player list"
  | role_assignment "role option"
  | system_message string
  | inspect_result string alignment
  | room_joined string sid bool
  | error_message string

text \<open>
  \<open>to_channel x m\<close> is \<open>io.to(x).emit(m)\<close>, \<open>to_socket i m\<close> is \<open>socket.emit(m)\<close> on the
  connection \<open>i\<close>.
\<close>

datatype emission = to_channel string message | to_socket sid message

text \<open>
  The whole server: the registry, the callbacks handed to \<open>setTimeout\<close> that have not
  fired yet (each is \<open>() => advance(room.code)\<close>, so it is kept as that code and its
  delay in milliseconds) and the messages emitted so far, oldest first.
\<close>

record server =
  rooms :: "(string \<times> room) list"
  timeouts :: "(string \<times> nat) list"
  sent :: "emission list"

subsection \<open>JavaScript truthiness\<close>

text \<open>
  An optional string is falsy when it is absent (\<open>undefined\<close>, \<open>null\<close>) or empty. An
  optional number of seconds is falsy when it is absent or \<open>0\<close>.
\<close>

fun truthy :: "string option \<Rightarrow> bool" where
  "truthy None = False"
| "truthy (Some t) = (t \<noteq> [])"

definition emit :: "emission \<Rightarrow> server \<Rightarrow> server" where
  "emit e s = s\<lparr>sent := sent s @ [e]\<rparr>"

text \<open>
  A handler mutates the room object it got from the registry; in the model the changed
  room is written back under the key it was read from.
\<close>

definition store :: "string \<Rightarrow> room \<Rightarrow> server \<Rightarrow> server" where
  "store c r s = s\<lparr>rooms := AList.update c r (rooms s)\<rparr>"

section \<open>Functions\<close>

definition chars :: string where
  "chars = ''ABCDEFGHJKLMNPQRSTUVWXYZ23456789''"

text \<open>
  \<open>code4\<close>: the four arguments are the four values of
  \<open>Math.floor(Math.random()*chars.length)\<close>, each below \<open>length chars\<close> since
  \<open>Math.random()\<close> is below 1.
\<close>

definition code4 :: "nat \<times> nat \<times> nat \<times> nat \<Rightarrow> string" where
  "code4 d = (case d of (d0, d1, d2, d3) \<Rightarrow> [chars ! d0, chars ! d1, chars ! d2, chars ! d3])"

definition getRoom :: "string \<Rightarrow> server \<Rightarrow> room option" where
  "getRoom c s = map_of (rooms s) c"

definition alivePlayers :: "room \<Rightarrow> player list" where
  "alivePlayers r = filter alive (map snd (players r))"

definition publicPlayer :: "player \<Rightarrow> public_player" where
  "publicPlayer p = PublicPlayer (pid p) (name p) (alive p) (voteFor p)"

definition broadcastState :: "room \<Rightarrow> server \<Rightarrow> server" where
  "broadcastState r s =
     emit (to_channel (code r)
             (room_state (code r) (phase r) (map publicPlayer (map snd (players r))))) s"

text \<open>
  \<open>assignRoles\<close>: \<open>shuffle\<close> stands for \<open>.sort(() => Math.random() - 0.5)\<close>, which
  returns the keys in some order.
\<close>

definition assignRoles :: "(sid list \<Rightarrow> sid list) \<Rightarrow> room \<Rightarrow> server \<Rightarrow> room \<times> server" where
  "assignRoles shuffle r s =
     (let ids = shuffle (map fst (players r)) in
      if length ids < 4 then (r, s)
      else
        let a1 = AList.update (ids ! 0) MURDERER [];
            a2 = AList.update (ids ! 1) DETECTIVE a1;
            a3 = AList.update (ids ! 2) DOCTOR a2;
            a4 = fold (\<lambda>i. AList.update i CIVILIAN) (drop 3 ids) a3
        in (r\<lparr>assignments := a4\<rparr>,
            fold (\<lambda>i. emit (to_channel i (role_assignment (map_of a4 i)))) ids s))"

definition setPhase :: "int \<Rightarrow> phase \<Rightarrow> nat option \<Rightarrow> room \<Rightarrow> server \<Rightarrow> room \<times> server" where
  "setPhase now ph seconds r s =
     (let r1 = r\<lparr>phase := ph\<rparr> in
      case seconds of
        None \<Rightarrow> (r1, broadcastState r1 s)
      | Some sec \<Rightarrow>
          if sec = 0 then (r1, broadcastState r1 s)
          else
            let r2 = r1\<lparr>timers := Some (now + int sec * 1000)\<rparr>;
                s2 = s\<lparr>timeouts := timeouts s @ [(code r2, sec * 1000)]\<rparr>
            in (r2, broadcastState r2 s2))"

text \<open>
  \<open>resolveVotes\<close>, first loop: \<open>tally[p.voteFor] = (tally[p.voteFor]||0)+1\<close> for every
  alive player with a truthy vote. The tally is a plain object \<open>{}\<close>, so a read of a key
  that it does not own falls through to \<open>Object.prototype\<close>, whose own property names are
  listed in \<open>inherited_keys\<close>. For such a key the read gives a function, \<open>||0\<close> keeps it
  and \<open>+1\<close> makes a string of it, which is stored and stays a string at every later vote
  (\<open>Str\<close>); for \<open>__proto__\<close> the store goes to the inherited setter, which drops a string,
  so nothing is stored. Every other key holds a number (\<open>Num\<close>), at least 1, so \<open>||0\<close>
  replaces only a missing entry. The tally is an association list in the order the keys
  were first written.
\<close>

definition inherited_keys :: "string list" where
  "inherited_keys =
     [''constructor'', ''__defineGetter__'', ''__defineSetter__'', ''hasOwnProperty'',
      ''__lookupGetter__'', ''__lookupSetter__'', ''isPrototypeOf'', ''propertyIsEnumerable'',
      ''toString'', ''valueOf'', ''__proto__'', ''toLocaleString'']"

datatype tally_value = Num nat | Str

definition tally_add :: "string \<Rightarrow> (string \<times> tally_value) list \<Rightarrow> (string \<times> tally_value) list" where
  "tally_add t tally =
     (case map_of tally t of
        Some (Num n) \<Rightarrow> AList.update t (Num (n + 1)) tally
      | Some Str \<Rightarrow> AList.update t Str tally
      | None \<Rightarrow>
          if t = ''__proto__'' then tally
          else if t \<in> set inherited_keys then AList.update t Str tally
          else AList.update t (Num 1) tally)"

fun tally_votes :: "player list \<Rightarrow> (string \<times> tally_value) list \<Rightarrow> (string \<times> tally_value) list" where
  "tally_votes [] tally = tally"
| "tally_votes (p # ps) tally =
     tally_votes ps
       (case voteFor p of
          None \<Rightarrow> tally
        | Some t \<Rightarrow> if alive p \<and> truthy (Some t) then tally_add t tally else tally)"

text \<open>
  Second loop: the state is \<open>(max, target, tie)\<close>, one step per entry of the tally. A
  string count is not a number: \<open>count > max\<close> and \<open>count === max\<close> are both false for it
  and the entry is passed over.
\<close>

fun scan_step :: "string \<times> tally_value \<Rightarrow> nat \<times> string option \<times> bool \<Rightarrow> nat \<times> string option \<times> bool" where
  "scan_step (p, Num count') (mx, target, tie) =
     (if count' > mx then (count', Some p, False)
      else if count' = mx then (mx, target, True)
      else (mx, target, tie))"
| "scan_step (p, Str) (mx, target, tie) = (mx, target, tie)"

definition resolveVotes :: "room \<Rightarrow> server \<Rightarrow> room \<times> server" where
  "resolveVotes r s =
     (let tally = tally_votes (map snd (players r)) [] in
      case fold scan_step tally (0, None, False) of
        (mx, target, tie) \<Rightarrow>
          if \<not> truthy target \<or> tie
          then (r, emit (to_channel (code r) (system_message ''no_eject'')) s)
          else
            (case target of
               None \<Rightarrow> (r, s)
             | Some t \<Rightarrow>
                 (case map_of (players r) t of
                    None \<Rightarrow> (r, s)
                  | Some victim \<Rightarrow>
                      if alive victim
                      then (r\<lparr>players := AList.update t (victim\<lparr>alive := False\<rparr>) (players r)\<rparr>,
                            emit (to_channel (code r) (system_message (''eject:'' @ name victim))) s)
                      else (r, s))))"

definition applyNight :: "room \<Rightarrow> server \<Rightarrow> room \<times> server" where
  "applyNight r s =
     (case kill (nightActions r) of
        None \<Rightarrow> (r, s)
      | Some k \<Rightarrow>
          (case map_of (players r) k of
             None \<Rightarrow> (r, s)
           | Some p \<Rightarrow>
               if truthy (Some k) \<and> alive p
               then
                 if save (nightActions r) = Some k
                 then (r, emit (to_channel (code r) (system_message ''save'')) s)
                 else (r\<lparr>players := AList.update k (p\<lparr>alive := False\<rparr>) (players r)\<rparr>,
                       emit (to_channel (code r) (system_message ''kill'')) s)
               else (r, s)))"

text \<open>\<open>checkWin\<close> with its local constants \<open>murdererIds\<close>, \<open>aliveM\<close> and \<open>aliveC\<close>.\<close>

definition murdererIds :: "room \<Rightarrow> sid list" where
  "murdererIds r = map fst (filter (\<lambda>e. snd e = MURDERER) (assignments r))"

definition aliveM :: "room \<Rightarrow> nat" where
  "aliveM r = length (filter (\<lambda>p. pid p \<in> set (murdererIds r)) (alivePlayers r))"

definition aliveC :: "room \<Rightarrow> int" where
  "aliveC r = int (length (alivePlayers r)) - int (aliveM r)"

definition checkWin :: "room \<Rightarrow> server \<Rightarrow> bool \<times> server" where
  "checkWin r s =
     (if aliveM r = 0
      then (True, emit (to_channel (code r) (system_message ''citizens_win'')) s)
      else if int (aliveM r) \<ge> aliveC r
      then (True, emit (to_channel (code r) (system_message ''murderer_win'')) s)
      else (False, s))"

definition no_actions :: night_actions where
  "no_actions = \<lparr>kill = None, save = None, inspect = None\<rparr>"

definition advance :: "int \<Rightarrow> string \<Rightarrow> server \<Rightarrow> server" where
  "advance now c s =
     (case getRoom c s of
        None \<Rightarrow> s
      | Some r \<Rightarrow>
          if phase r = LOBBY then s
          else if phase r = NIGHT
          then (case setPhase now DAY (Some 75) r s of (r1, s1) \<Rightarrow> store c r1 s1)
          else if phase r = DAY
          then (case setPhase now VOTE (Some 35) r s of (r1, s1) \<Rightarrow> store c r1 s1)
          else if phase r = VOTE
          then (case setPhase now RESOLVE (Some 3) r s of
                  (r1, s1) \<Rightarrow> (case resolveVotes r1 s1 of (r2, s2) \<Rightarrow> store c r2 s2))
          else if phase r = RESOLVE
          then (case checkWin r s of
                  (won, s1) \<Rightarrow>
                    if won
                    then (case setPhase now END None r s1 of (r1, s2) \<Rightarrow> store c r1 s2)
                    else
                      let r1 = r\<lparr>nightActions := no_actions\<rparr>;
                          r2 = r1\<lparr>players :=
                                 map (\<lambda>e. (fst e, (snd e)\<lparr>voteFor := None\<rparr>)) (players r1)\<rparr>
                      in (case setPhase now NIGHT (Some 35) r2 s1 of
                            (r3, s2) \<Rightarrow> store c r3 s2))
          else s)"

section \<open>Socket handlers and the timer callback\<close>

text \<open>
  Each handler takes the id of the connection the message came in on and the fields of
  the payload; an optional field that is absent is \<open>None\<close>, and \<open>players.get\<close> of an
  absent target finds nothing. A character of a string is a code unit below 256;
  \<open>trim\<close> is \<open>String.prototype.trim\<close>, and \<open>is_space\<close> has the white space and line
  terminators of JavaScript in that range.
\<close>

definition is_space :: "char \<Rightarrow> bool" where
  "is_space ch =
     (ch \<in> set [CHR '' '', CHR 0x09, CHR 0x0A, CHR 0x0B, CHR 0x0C, CHR 0x0D, CHR 0xA0])"

definition trim :: "string \<Rightarrow> string" where
  "trim t = rev (dropWhile is_space (rev (dropWhile is_space t)))"

definition name_or :: "string option \<Rightarrow> string \<Rightarrow> string" where
  "name_or nm d = (case nm of None \<Rightarrow> d | Some n \<Rightarrow> if trim n = [] then d else trim n)"

definition on_create_room :: "nat \<times> nat \<times> nat \<times> nat \<Rightarrow> sid \<Rightarrow> string option \<Rightarrow> server \<Rightarrow> server" where
  "on_create_room draws i nm s =
     (let c = code4 draws;
          r = \<lparr>code = c, hostId = Some i, phase = LOBBY, players = [], assignments = [],
               nightActions = no_actions, timers = None\<rparr>;
          s1 = s\<lparr>rooms := AList.update c r (rooms s)\<rparr>;
          r1 = r\<lparr>players := AList.update i
                 \<lparr>pid = i, name = name_or nm ''HOST'', alive = True, voteFor = None\<rparr>
                 (players r)\<rparr>;
          s2 = store c r1 s1;
          s3 = emit (to_socket i (room_joined c i True)) s2
      in broadcastState r1 s3)"

definition on_start_game :: "(sid list \<Rightarrow> sid list) \<Rightarrow> int \<Rightarrow> sid \<Rightarrow> string \<Rightarrow> server \<Rightarrow> server" where
  "on_start_game shuffle now i c s =
     (case getRoom c s of
        None \<Rightarrow> s
      | Some r \<Rightarrow>
          if Some i \<noteq> hostId r then s
          else if length (players r) < 4
          then emit (to_socket i (error_message ''need_4_players'')) s
          else
            (case assignRoles shuffle r s of
               (r1, s1) \<Rightarrow>
                 (case setPhase now NIGHT (Some 35) r1 s1 of (r2, s2) \<Rightarrow> store c r2 s2)))"

definition on_night_action :: "sid \<Rightarrow> string \<Rightarrow> string option \<Rightarrow> server \<Rightarrow> server" where
  "on_night_action i c target s =
     (case getRoom c s of
        None \<Rightarrow> s
      | Some r \<Rightarrow>
          if phase r \<noteq> NIGHT then s
          else
            (case map_of (assignments r) i of
               None \<Rightarrow> s
             | Some rl \<Rightarrow>
                 (case target of
                    None \<Rightarrow> s
                  | Some t \<Rightarrow>
                      (case map_of (players r) t of
                         None \<Rightarrow> s
                       | Some p \<Rightarrow>
                           if \<not> alive p then s
                           else
                             let n0 = nightActions r;
                                 n1 = (if rl = MURDERER then n0\<lparr>kill := Some t\<rparr> else n0);
                                 n2 = (if rl = DOCTOR then n1\<lparr>save := Some t\<rparr> else n1)
                             in if rl = DETECTIVE
                                then
                                  let roleOfTarget = map_of (assignments r) t
                                  in emit (to_channel i
                                             (inspect_result t
                                                (if roleOfTarget = Some MURDERER then evil else good)))
                                       (store c (r\<lparr>nightActions := n2\<lparr>inspect := Some t\<rparr>\<rparr>) s)
                                else store c (r\<lparr>nightActions := n2\<rparr>) s))))"

definition on_vote :: "sid \<Rightarrow> string \<Rightarrow> string option \<Rightarrow> server \<Rightarrow> server" where
  "on_vote i c target s =
     (case getRoom c s of
        None \<Rightarrow> s
      | Some r \<Rightarrow>
          if phase r \<noteq> VOTE then s
          else
            (case map_of (players r) i of
               None \<Rightarrow> s
             | Some voter \<Rightarrow>
                 if \<not> alive voter then s
                 else
                   let v = voter\<lparr>voteFor := (if truthy target then target else None)\<rparr>;
                       r1 = r\<lparr>players := AList.update i v (players r)\<rparr>
                   in broadcastState r1 (store c r1 s)))"

definition on_advance :: "int \<Rightarrow> sid \<Rightarrow> string \<Rightarrow> server \<Rightarrow> server" where
  "on_advance now i c s =
     (case getRoom c s of
        None \<Rightarrow> s
      | Some r \<Rightarrow>
          if Some i \<noteq> hostId r then s
          else
            let s1 = (if phase r = NIGHT
                      then (case applyNight r s of (r1, s') \<Rightarrow> store c r1 s')
                      else s)
            in advance now c s1)"

text \<open>
  The \<open>n\<close>-th pending \<open>setTimeout\<close> callback fires: it leaves the pending list and runs
  \<open>advance(room.code)\<close>.
\<close>

definition on_timeout :: "int \<Rightarrow> nat \<Rightarrow> server \<Rightarrow> server" where
  "on_timeout now n s =
     (if n < length (timeouts s)
      then advance now (fst (timeouts s ! n))
             (s\<lparr>timeouts := take n (timeouts s) @ drop (Suc n) (timeouts s)\<rparr>)
      else s)"

section \<open>Example rooms\<close>

text \<open>
  A room \<open>AAAA\<close> (the code of the draws \<open>(0, 0, 0, 0)\<close>) with the four connections
  \<open>m\<close>, \<open>t\<close>, \<open>d\<close> and \<open>c\<close>; \<open>m\<close> is the host.
\<close>

definition seat :: "sid \<Rightarrow> string \<Rightarrow> bool \<Rightarrow> string option \<Rightarrow> sid \<times> player" where
  "seat i n a v = (i, \<lparr>pid = i, name = n, alive = a, voteFor = v\<rparr>)"

definition cast4 :: "(sid \<times> role) list" where
  "cast4 = [(''m'', MURDERER), (''t'', DETECTIVE), (''d'', DOCTOR), (''c'', CIVILIAN)]"

definition table :: "phase \<Rightarrow> (sid \<times> player) list \<Rightarrow> (sid \<times> role) list \<Rightarrow> night_actions \<Rightarrow> room" where
  "table ph ps asg na =
     \<lparr>code = ''AAAA'', hostId = Some ''m'', phase = ph, players = ps, assignments = asg,
      nightActions = na, timers = None\<rparr>"

definition hosting :: "room \<Rightarrow> server" where
  "hosting r = \<lparr>rooms = [(code r, r)], timeouts = [], sent = []\<rparr>"

definition four_alive :: "(sid \<times> player) list" where
  "four_alive = [seat ''m'' ''Mo'' True None, seat ''t'' ''Tess'' True None,
                 seat ''d'' ''Dan'' True None, seat ''c'' ''Cy'' True None]"

text \<open>The host starts the game at time 0 and the shuffle leaves the ids in place.\<close>

definition started :: server where
  "started =
     on_start_game (\<lambda>ks. ks) 0 ''m'' ''AAAA'' (hosting (table LOBBY four_alive [] no_actions))"

text \<open>Then the murderer names \<open>c\<close> as the night's victim.\<close>

definition night_kill_c :: server where
  "night_kill_c = on_night_action ''m'' ''AAAA'' (Some ''c'') started"

text \<open>Later states of the same table, and a lobby with two players only.\<close>

definition three_left :: "(sid \<times> player) list" where
  "three_left = [seat ''m'' ''Mo'' True None, seat ''t'' ''Tess'' False None,
                 seat ''d'' ''Dan'' True None, seat ''c'' ''Cy'' True None]"

definition two_left :: "(sid \<times> player) list" where
  "two_left = [seat ''m'' ''Mo'' True None, seat ''t'' ''Tess'' False None,
               seat ''d'' ''Dan'' True None, seat ''c'' ''Cy'' False None]"

definition none_left :: "(sid \<times> player) list" where
  "none_left = [seat ''m'' ''Mo'' False None, seat ''t'' ''Tess'' False None,
                seat ''d'' ''Dan'' False None, seat ''c'' ''Cy'' False None]"

definition graveyard :: "(sid \<times> player) list" where
  "graveyard = [seat ''m'' ''Mo'' False None, seat ''t'' ''Tess'' False None,
                seat ''d'' ''Dan'' True None, seat ''c'' ''Cy'' True None]"

definition two_seats :: "(sid \<times> player) list" where
  "two_seats = [seat ''m'' ''Mo'' True None, seat ''t'' ''Tess'' True None]"

definition no_rooms :: server where
  "no_rooms = \<lparr>rooms = [], timeouts = [], sent = []\<rparr>"

section \<open>Vocabulary of the claims\<close>

text \<open>
  The votes that count, in the claims' words: the targets named by alive players, one
  entry per voter, an empty target being no vote. \<open>votes r t\<close> is the tally of \<open>t\<close>, and
  \<open>leads r t\<close> says that \<open>t\<close> has the strictly highest tally.
\<close>

fun ballots :: "player list \<Rightarrow> string list" where
  "ballots [] = []"
| "ballots (p # ps) =
     (case voteFor p of
        None \<Rightarrow> ballots ps
      | Some t \<Rightarrow> if alive p \<and> t \<noteq> [] then t # ballots ps else ballots ps)"

definition votes :: "room \<Rightarrow> string \<Rightarrow> nat" where
  "votes r t = count_list (ballots (map snd (players r))) t"

definition leads :: "room \<Rightarrow> string \<Rightarrow> bool" where
  "leads r t =
     (0 < votes r t \<and>
      (\<forall>u \<in> set (ballots (map snd (players r))). u \<noteq> t \<longrightarrow> votes r u < votes r t))"

text \<open>The number of ids that an assignment maps to a role.\<close>

definition role_count :: "role \<Rightarrow> (sid \<times> role) list \<Rightarrow> nat" where
  "role_count rl a = length (filter (\<lambda>e. snd e = rl) a)"

text \<open>
  Votes for ordinary keys only: no counted vote names a key that the tally object
  inherits.
\<close>

definition plain_votes :: "room \<Rightarrow> bool" where
  "plain_votes r = (\<forall>t \<in> set (ballots (map snd (players r))). t \<notin> set inherited_keys)"

text \<open>
  What the two loops of \<open>resolveVotes\<close> maintain: \<open>vote_step\<close> is what one more vote for
  a key makes of the key's entry, \<open>counts\<close> are the entries of the tally that hold a number,
  and \<open>scanned\<close> relates the scan's state to the entries passed so far.
\<close>

definition vote_step :: "string \<Rightarrow> tally_value option \<Rightarrow> tally_value option" where
  "vote_step t v =
     (case v of
        Some (Num n) \<Rightarrow> Some (Num (n + 1))
      | Some Str \<Rightarrow> Some Str
      | None \<Rightarrow>
          if t = ''__proto__'' then None
          else if t \<in> set inherited_keys then Some Str
          else Some (Num 1))"

fun counts :: "(string \<times> tally_value) list \<Rightarrow> (string \<times> nat) list" where
  "counts [] = []"
| "counts ((k, Num n) # es) = (k, n) # counts es"
| "counts ((k, Str) # es) = counts es"

definition scanned :: "(string \<times> nat) list \<Rightarrow> nat \<times> string option \<times> bool \<Rightarrow> bool" where
  "scanned es st =
     (case st of (mx, target, tie) \<Rightarrow>
        (\<forall>e \<in> set es. snd e \<le> mx) \<and>
        (es = [] \<longrightarrow> mx = 0 \<and> target = None) \<and>
        (es \<noteq> [] \<longrightarrow> (\<exists>t. target = Some t \<and> (t, mx) \<in> set es)) \<and>
        (tie \<longleftrightarrow> (\<exists>k k'. k \<noteq> k' \<and> (k, mx) \<in> set es \<and> (k', mx) \<in> set es)))"

text \<open>
  Ballots at the table: three to one, two to two, two votes for \<open>constructor\<close> against one
  for a player, and one vote for a dead player.
\<close>

definition votes_3_1 :: "(sid \<times> player) list" where
  "votes_3_1 = [seat ''m'' ''Mo'' True (Some ''c''), seat ''t'' ''Tess'' True (Some ''c''),
                seat ''d'' ''Dan'' True (Some ''c''), seat ''c'' ''Cy'' True (Some ''m'')]"

definition votes_2_2 :: "(sid \<times> player) list" where
  "votes_2_2 = [seat ''m'' ''Mo'' True (Some ''c''), seat ''t'' ''Tess'' True (Some ''c''),
                seat ''d'' ''Dan'' True (Some ''m''), seat ''c'' ''Cy'' True (Some ''m'')]"

definition votes_for_constructor :: "(sid \<times> player) list" where
  "votes_for_constructor =
     [seat ''m'' ''Mo'' True (Some ''constructor''), seat ''t'' ''Tess'' True (Some ''constructor''),
      seat ''d'' ''Dan'' True (Some ''c''), seat ''c'' ''Cy'' True None]"

definition vote_for_dead :: "(sid \<times> player) list" where
  "vote_for_dead = [seat ''m'' ''Mo'' True (Some ''t''), seat ''t'' ''Tess'' False None,
                    seat ''d'' ''Dan'' True None, seat ''c'' ''Cy'' True None]"

section \<open>Properties\<close>

lemmas ev = seat_def cast4_def table_def hosting_def four_alive_def no_actions_def
  three_left_def two_left_def none_left_def graveyard_def two_seats_def no_rooms_def
  votes_3_1_def votes_2_2_def vote_for_dead_def votes_for_constructor_def inherited_keys_def
  getRoom_def store_def emit_def broadcastState_def publicPlayer_def setPhase_def
  applyNight_def advance_def on_timeout_def on_advance_def checkWin_def aliveM_def aliveC_def
  murdererIds_def alivePlayers_def resolveVotes_def tally_add_def

lemma started_eq:
  "started =
     \<lparr>rooms = [(''AAAA'', (table NIGHT four_alive cast4 no_actions)\<lparr>timers := Some 35000\<rparr>)],
      timeouts = [(''AAAA'', 35000)],
      sent = [to_channel ''m'' (role_assignment (Some MURDERER)),
              to_channel ''t'' (role_assignment (Some DETECTIVE)),
              to_channel ''d'' (role_assignment (Some DOCTOR)),
              to_channel ''c'' (role_assignment (Some CIVILIAN)),
              to_channel ''AAAA'' (room_state ''AAAA'' NIGHT
                [PublicPlayer ''m'' ''Mo'' True None, PublicPlayer ''t'' ''Tess'' True None,
                 PublicPlayer ''d'' ''Dan'' True None, PublicPlayer ''c'' ''Cy'' True None])]\<rparr>"
  by (simp add: started_def on_start_game_def assignRoles_def ev)

lemma night_kill_c_eq:
  "night_kill_c =
     started\<lparr>rooms := [(''AAAA'',
       (table NIGHT four_alive cast4 (no_actions\<lparr>kill := Some ''c''\<rparr>))\<lparr>timers := Some 35000\<rparr>)]\<rparr>"
  by (simp add: night_kill_c_def started_eq on_night_action_def ev)

subsection \<open>The registry and the phase scheduler, step by step\<close>

lemma getRoom_store: "getRoom c' (store c r s) = (if c' = c then Some r else getRoom c' s)"
  by (simp add: getRoom_def store_def update_conv')

lemma sent_store: "sent (store c r s) = sent s"
  by (simp add: store_def)

lemma setPhase_timed:
  "sec \<noteq> 0 \<Longrightarrow> setPhase now ph (Some sec) r s =
     (r\<lparr>phase := ph, timers := Some (now + int sec * 1000)\<rparr>,
      s\<lparr>timeouts := timeouts s @ [(code r, sec * 1000)],
        sent := sent s @ [to_channel (code r)
                  (room_state (code r) ph (map publicPlayer (map snd (players r))))]\<rparr>)"
  by (simp add: setPhase_def broadcastState_def emit_def)

lemma setPhase_untimed:
  "setPhase now ph None r s =
     (r\<lparr>phase := ph\<rparr>,
      s\<lparr>sent := sent s @ [to_channel (code r)
                  (room_state (code r) ph (map publicPlayer (map snd (players r))))]\<rparr>)"
  by (simp add: setPhase_def broadcastState_def emit_def)

lemma resolveVotes_phase: "resolveVotes r s = (r', s') \<Longrightarrow> phase r' = phase r"
  by (auto simp: resolveVotes_def Let_def split: prod.splits option.splits if_splits)

lemma resolveVotes_rooms: "rooms (snd (resolveVotes r s)) = rooms s"
  by (simp add: resolveVotes_def Let_def emit_def split: prod.splits option.splits)

lemma advance_noop:
  "getRoom c s = None \<or> map_option phase (getRoom c s) = Some LOBBY \<or>
   map_option phase (getRoom c s) = Some END \<Longrightarrow> advance now c s = s"
  by (auto simp: advance_def split: option.splits)

lemma advance_NIGHT:
  "getRoom c s = Some r \<Longrightarrow> phase r = NIGHT \<Longrightarrow>
   advance now c s =
     store c (r\<lparr>phase := DAY, timers := Some (now + 75000)\<rparr>)
       (s\<lparr>timeouts := timeouts s @ [(code r, 75000)],
          sent := sent s @ [to_channel (code r)
                    (room_state (code r) DAY (map publicPlayer (map snd (players r))))]\<rparr>)"
  by (simp add: advance_def setPhase_timed)

lemma advance_DAY:
  "getRoom c s = Some r \<Longrightarrow> phase r = DAY \<Longrightarrow>
   advance now c s =
     store c (r\<lparr>phase := VOTE, timers := Some (now + 35000)\<rparr>)
       (s\<lparr>timeouts := timeouts s @ [(code r, 35000)],
          sent := sent s @ [to_channel (code r)
                    (room_state (code r) VOTE (map publicPlayer (map snd (players r))))]\<rparr>)"
  by (simp add: advance_def setPhase_timed)

lemma advance_VOTE_phase:
  "getRoom c s = Some r \<Longrightarrow> phase r = VOTE \<Longrightarrow>
   map_option phase (getRoom c (advance now c s)) = Some RESOLVE"
  by (auto simp: advance_def setPhase_timed getRoom_store split: prod.splits
        dest: resolveVotes_phase)

lemma advance_RESOLVE_won:
  "getRoom c s = Some r \<Longrightarrow> phase r = RESOLVE \<Longrightarrow>
   aliveM r = 0 \<or> int (aliveM r) \<ge> aliveC r \<Longrightarrow>
   advance now c s =
     store c (r\<lparr>phase := END\<rparr>)
       (s\<lparr>sent := sent s @
           [to_channel (code r) (system_message
              (if aliveM r = 0 then ''citizens_win'' else ''murderer_win'')),
            to_channel (code r)
              (room_state (code r) END (map publicPlayer (map snd (players r))))]\<rparr>)"
  by (auto simp: advance_def checkWin_def setPhase_untimed emit_def aliveC_def)

lemma advance_RESOLVE_on:
  "getRoom c s = Some r \<Longrightarrow> phase r = RESOLVE \<Longrightarrow>
   0 < aliveM r \<Longrightarrow> int (aliveM r) < aliveC r \<Longrightarrow>
   advance now c s =
     store c (r\<lparr>nightActions := no_actions,
                players := map (\<lambda>e. (fst e, (snd e)\<lparr>voteFor := None\<rparr>)) (players r),
                phase := NIGHT, timers := Some (now + 35000)\<rparr>)
       (s\<lparr>timeouts := timeouts s @ [(code r, 35000)],
          sent := sent s @ [to_channel (code r)
             (room_state (code r) NIGHT
                (map publicPlayer (map snd
                   (map (\<lambda>e. (fst e, (snd e)\<lparr>voteFor := None\<rparr>)) (players r)))))]\<rparr>)"
  by (simp add: advance_def checkWin_def setPhase_timed emit_def Let_def comp_def)

lemma store_same: "getRoom c s = Some r \<Longrightarrow> store c r s = s"
  by (simp add: getRoom_def store_def update_triv)

lemma applyNight_frame:
  "applyNight r s = (r', s') \<Longrightarrow>
     phase r' = phase r \<and> code r' = code r \<and> hostId r' = hostId r \<and>
     rooms s' = rooms s \<and> timeouts s' = timeouts s"
  by (auto simp: applyNight_def emit_def split: option.splits if_splits)

lemma on_advance_NIGHT:
  assumes "getRoom c s = Some r" "phase r = NIGHT" "hostId r = Some i"
    and "applyNight r s = (r', s')"
  shows "on_advance now i c s =
     store c (r'\<lparr>phase := DAY, timers := Some (now + 75000)\<rparr>)
       ((store c r' s')\<lparr>timeouts := timeouts s @ [(code r, 75000)],
          sent := sent s' @ [to_channel (code r)
                    (room_state (code r) DAY (map publicPlayer (map snd (players r'))))]\<rparr>)"
proof -
  have f: "phase r' = NIGHT" "code r' = code r" "timeouts s' = timeouts s"
    using applyNight_frame [OF assms(4)] assms(2) by simp_all
  have g: "getRoom c (store c r' s') = Some r'"
    by (simp add: getRoom_store)
  have "on_advance now i c s = advance now c (store c r' s')"
    using assms by (simp add: on_advance_def)
  also have "\<dots> = store c (r'\<lparr>phase := DAY, timers := Some (now + 75000)\<rparr>)
       ((store c r' s')\<lparr>timeouts := timeouts (store c r' s') @ [(code r', 75000)],
          sent := sent (store c r' s') @ [to_channel (code r')
                    (room_state (code r') DAY (map publicPlayer (map snd (players r'))))]\<rparr>)"
    using advance_NIGHT [OF g f(1), of now] .
  finally show ?thesis
    by (simp add: f store_def)
qed

lemma update_fresh: "map_of al k = None \<Longrightarrow> AList.update k v al = al @ [(k, v)]"
  by (induction al) (auto split: if_splits)

lemma update_at_end: "map_of al k = None \<Longrightarrow> AList.update k w (al @ [(k, v)]) = al @ [(k, w)]"
  by (induction al) (auto split: if_splits)

lemma chars_nth: "d < 32 \<Longrightarrow> chars ! d \<in> set chars"
  by (rule nth_mem) (simp add: chars_def)

subsection \<open>Leaving NIGHT\<close>

text \<open>
  C1. Night resolution is to run whenever a room leaves NIGHT, by the host's advance or by
  the NIGHT timer. The handler of \<open>advance\<close> calls \<open>applyNight\<close> before \<open>advance\<close>; the
  timer callback calls \<open>advance\<close> alone. In the started game, after the murderer has named
  \<open>c\<close>: when the 35 s timer fires the room goes to DAY with \<open>c\<close> still alive and no \<open>kill\<close>
  message, whereas the host's advance from the same state kills \<open>c\<close> and announces it.
\<close>

theorem night_timer_skips_applyNight:
  "map_option phase (getRoom ''AAAA'' (on_timeout 35000 0 night_kill_c)) = Some DAY \<and>
   map_option (\<lambda>r. map_option alive (map_of (players r) ''c''))
     (getRoom ''AAAA'' (on_timeout 35000 0 night_kill_c)) = Some (Some True) \<and>
   to_channel ''AAAA'' (system_message ''kill'') \<notin> set (sent (on_timeout 35000 0 night_kill_c)) \<and>
   map_option phase (getRoom ''AAAA'' (on_advance 20000 ''m'' ''AAAA'' night_kill_c)) = Some DAY \<and>
   map_option (\<lambda>r. map_option alive (map_of (players r) ''c''))
     (getRoom ''AAAA'' (on_advance 20000 ''m'' ''AAAA'' night_kill_c)) = Some (Some False) \<and>
   to_channel ''AAAA'' (system_message ''kill'')
     \<in> set (sent (on_advance 20000 ''m'' ''AAAA'' night_kill_c))"
  by (simp add: night_kill_c_eq started_eq ev)

subsection \<open>Night resolution\<close>

text \<open>
  C6. \<open>applyNight\<close>: when a kill target was submitted (a truthy \<open>kill\<close>) and that target
  is an alive player of the room, then if the save target equals it the room is unchanged
  and the one message sent is \<open>save\<close>; otherwise the target's \<open>alive\<close> becomes false and the
  one message sent is \<open>kill\<close>. When no kill target was submitted nothing changes and
  nothing is sent.
\<close>

theorem applyNight_kill_save:
  "(kill (nightActions r) = Some k \<and> truthy (Some k) \<and>
    map_of (players r) k = Some p \<and> alive p \<longrightarrow>
      (save (nightActions r) = Some k \<longrightarrow>
         applyNight r s = (r, emit (to_channel (code r) (system_message ''save'')) s)) \<and>
      (save (nightActions r) \<noteq> Some k \<longrightarrow>
         applyNight r s =
           (r\<lparr>players := AList.update k (p\<lparr>alive := False\<rparr>) (players r)\<rparr>,
            emit (to_channel (code r) (system_message ''kill'')) s) \<and>
         map_of (players (fst (applyNight r s))) k = Some (p\<lparr>alive := False\<rparr>))) \<and>
   (\<not> truthy (kill (nightActions r)) \<longrightarrow> applyNight r s = (r, s))"
  by (cases "kill (nightActions r)") (auto simp: applyNight_def update_conv' split: option.splits)

theorem applyNight_kill_save_witness:
  "applyNight (table NIGHT four_alive cast4 (no_actions\<lparr>kill := Some ''c'', save := Some ''c''\<rparr>))
     (hosting (table NIGHT four_alive cast4 no_actions))
   = (table NIGHT four_alive cast4 (no_actions\<lparr>kill := Some ''c'', save := Some ''c''\<rparr>),
      emit (to_channel ''AAAA'' (system_message ''save''))
        (hosting (table NIGHT four_alive cast4 no_actions))) \<and>
   map_of (players (fst (applyNight
       (table NIGHT four_alive cast4 (no_actions\<lparr>kill := Some ''c'', save := Some ''d''\<rparr>))
       (hosting (table NIGHT four_alive cast4 no_actions))))) ''c''
   = Some \<lparr>pid = ''c'', name = ''Cy'', alive = False, voteFor = None\<rparr> \<and>
   applyNight (table NIGHT four_alive cast4 (no_actions\<lparr>save := Some ''d''\<rparr>))
     (hosting (table NIGHT four_alive cast4 no_actions))
   = (table NIGHT four_alive cast4 (no_actions\<lparr>save := Some ''d''\<rparr>),
      hosting (table NIGHT four_alive cast4 no_actions))"
proof -
  let ?s = "hosting (table NIGHT four_alive cast4 no_actions)"
  let ?cy = "\<lparr>pid = ''c'', name = ''Cy'', alive = True, voteFor = None\<rparr>"
  let ?saved = "table NIGHT four_alive cast4 (no_actions\<lparr>kill := Some ''c'', save := Some ''c''\<rparr>)"
  let ?killed = "table NIGHT four_alive cast4 (no_actions\<lparr>kill := Some ''c'', save := Some ''d''\<rparr>)"
  let ?quiet = "table NIGHT four_alive cast4 (no_actions\<lparr>save := Some ''d''\<rparr>)"
  have h1: "kill (nightActions ?saved) = Some ''c'' \<and> truthy (Some ''c'') \<and>
            map_of (players ?saved) ''c'' = Some ?cy \<and> alive ?cy"
    by (simp add: ev)
  have h2: "save (nightActions ?saved) = Some ''c''"
    by (simp add: ev)
  have h3: "kill (nightActions ?killed) = Some ''c'' \<and> truthy (Some ''c'') \<and>
            map_of (players ?killed) ''c'' = Some ?cy \<and> alive ?cy"
    by (simp add: ev)
  have h4: "save (nightActions ?killed) \<noteq> Some ''c''"
    by (simp add: ev)
  have h5: "\<not> truthy (kill (nightActions ?quiet))"
    by (simp add: ev)
  have a: "applyNight ?saved ?s = (?saved, emit (to_channel (code ?saved) (system_message ''save'')) ?s)"
    using applyNight_kill_save [of ?saved "''c''" ?cy ?s] h1 h2 by blast
  have b: "map_of (players (fst (applyNight ?killed ?s))) ''c'' = Some (?cy\<lparr>alive := False\<rparr>)"
    using applyNight_kill_save [of ?killed "''c''" ?cy ?s] h3 h4 by blast
  have c: "applyNight ?quiet ?s = (?quiet, ?s)"
    using applyNight_kill_save [of ?quiet "''c''" ?cy ?s] h5 by blast
  have d: "code ?saved = ''AAAA''"
    by (simp add: table_def)
  show ?thesis
    using a b c d by simp
qed

subsection \<open>The public projection\<close>

text \<open>
  C9. \<open>broadcastState\<close> sends one \<open>room_state\<close> message to the room's channel, made of the
  room code, the phase and, per player, the id, the name, the alive flag and the vote
  target. Two rooms that differ only in their role assignments and night actions send the
  same message.
\<close>

theorem broadcastState_hides_roles:
  "broadcastState (r\<lparr>assignments := a, nightActions := n\<rparr>) s = broadcastState r s \<and>
   sent (broadcastState r s) =
     sent s @ [to_channel (code r) (room_state (code r) (phase r)
       (map (\<lambda>p. PublicPlayer (pid p) (name p) (alive p) (voteFor p)) (map snd (players r))))]"
  by (simp add: broadcastState_def emit_def publicPlayer_def)

subsection \<open>Timers\<close>

text \<open>
  C2, as the code has it. A timer that fires runs \<open>advance\<close> on the phase the room is in at
  that moment; the phase it was set in is neither kept nor compared. Nothing changes in
  the registry or in the messages only when the room is gone or is in LOBBY or END. In
  NIGHT, DAY, VOTE and RESOLVE the room moves on to DAY, VOTE, RESOLVE and END or NIGHT,
  whichever phase the timer was set in.
\<close>

theorem timeout_advances_current_phase:
  "n < length (timeouts s) \<and> fst (timeouts s ! n) = c \<longrightarrow>
     on_timeout now n s =
       advance now c (s\<lparr>timeouts := take n (timeouts s) @ drop (Suc n) (timeouts s)\<rparr>) \<and>
     (getRoom c s = None \<or> map_option phase (getRoom c s) = Some LOBBY \<or>
      map_option phase (getRoom c s) = Some END \<longrightarrow>
        rooms (on_timeout now n s) = rooms s \<and> sent (on_timeout now n s) = sent s) \<and>
     (map_option phase (getRoom c s) = Some NIGHT \<longrightarrow>
        map_option phase (getRoom c (on_timeout now n s)) = Some DAY) \<and>
     (map_option phase (getRoom c s) = Some DAY \<longrightarrow>
        map_option phase (getRoom c (on_timeout now n s)) = Some VOTE) \<and>
     (map_option phase (getRoom c s) = Some VOTE \<longrightarrow>
        map_option phase (getRoom c (on_timeout now n s)) = Some RESOLVE) \<and>
     (map_option phase (getRoom c s) = Some RESOLVE \<longrightarrow>
        map_option phase (getRoom c (on_timeout now n s)) \<in> {Some END, Some NIGHT})"
  (is "_ \<longrightarrow> ?runs \<and> ?idle \<and> ?night \<and> ?day \<and> ?vote \<and> ?resolve")
proof (intro impI, elim conjE)
  assume n: "n < length (timeouts s)" and c: "fst (timeouts s ! n) = c"
  let ?s = "s\<lparr>timeouts := take n (timeouts s) @ drop (Suc n) (timeouts s)\<rparr>"
  have t: "on_timeout now n s = advance now c ?s"
    using n c by (simp add: on_timeout_def)
  have g: "getRoom c ?s = getRoom c s"
    by (simp add: getRoom_def)
  have idle: ?idle
    using advance_noop [of c ?s now] by (simp add: t g)
  have night: ?night
    using advance_NIGHT [of c ?s _ now] by (auto simp: t g getRoom_store)
  have day: ?day
    using advance_DAY [of c ?s _ now] by (auto simp: t g getRoom_store)
  have vote: ?vote
    using advance_VOTE_phase [of c ?s _ now] by (auto simp: t g)
  have resolve: ?resolve
  proof
    assume "map_option phase (getRoom c s) = Some RESOLVE"
    then obtain r where r: "getRoom c ?s = Some r" "phase r = RESOLVE"
      by (auto simp: g)
    show "map_option phase (getRoom c (on_timeout now n s)) \<in> {Some END, Some NIGHT}"
    proof (cases "aliveM r = 0 \<or> int (aliveM r) \<ge> aliveC r")
      case True
      then show ?thesis
        using advance_RESOLVE_won [OF r, of now] by (simp add: t getRoom_store)
    next
      case False
      then show ?thesis
        using advance_RESOLVE_on [OF r, of now] by (simp add: t getRoom_store)
    qed
  qed
  show "?runs \<and> ?idle \<and> ?night \<and> ?day \<and> ?vote \<and> ?resolve"
    using t idle night day vote resolve by blast
qed

theorem timeout_advances_current_phase_witness:
  "map_option phase
     (getRoom ''AAAA'' (on_timeout 35000 0 (on_advance 20000 ''m'' ''AAAA'' started))) = Some VOTE \<and>
   rooms (on_timeout 9 0 ((hosting (table END two_left cast4 no_actions))
            \<lparr>timeouts := [(''AAAA'', 3000)]\<rparr>))
     = rooms (hosting (table END two_left cast4 no_actions)) \<and>
   sent (on_timeout 9 0 ((hosting (table END two_left cast4 no_actions))
            \<lparr>timeouts := [(''AAAA'', 3000)]\<rparr>)) = []"
proof -
  let ?day = "on_advance 20000 ''m'' ''AAAA'' started"
  let ?over = "(hosting (table END two_left cast4 no_actions))\<lparr>timeouts := [(''AAAA'', 3000)]\<rparr>"
  have h1: "0 < length (timeouts ?day) \<and> fst (timeouts ?day ! 0) = ''AAAA''"
    by (simp add: started_eq ev)
  have h2: "map_option phase (getRoom ''AAAA'' ?day) = Some DAY"
    by (simp add: started_eq ev)
  have h3: "0 < length (timeouts ?over) \<and> fst (timeouts ?over ! 0) = ''AAAA''"
    by (simp add: ev)
  have h4: "map_option phase (getRoom ''AAAA'' ?over) = Some END"
    by (simp add: ev)
  have a: "map_option phase (getRoom ''AAAA'' (on_timeout 35000 0 ?day)) = Some VOTE"
    using timeout_advances_current_phase [of 0 ?day "''AAAA''" 35000] h1 h2 by blast
  have b: "rooms (on_timeout 9 0 ?over) = rooms ?over \<and> sent (on_timeout 9 0 ?over) = sent ?over"
    using timeout_advances_current_phase [of 0 ?over "''AAAA''" 9] h3 h4 by blast
  have c: "rooms ?over = rooms (hosting (table END two_left cast4 no_actions)) \<and> sent ?over = []"
    by (simp add: hosting_def)
  show ?thesis
    using a b c by simp
qed

text \<open>
  C2 as stated fails. The game starts (the 35 s NIGHT timer is the first pending
  callback), the host advances to DAY after 20 s, and then the NIGHT timer fires: the room
  is moved from DAY to VOTE.
\<close>

theorem stale_timer_advances_again:
  "timeouts started = [(''AAAA'', 35000)] \<and>
   map_option phase (getRoom ''AAAA'' started) = Some NIGHT \<and>
   map_option phase (getRoom ''AAAA'' (on_advance 20000 ''m'' ''AAAA'' started)) = Some DAY \<and>
   timeouts (on_advance 20000 ''m'' ''AAAA'' started) = [(''AAAA'', 35000), (''AAAA'', 75000)] \<and>
   map_option phase
     (getRoom ''AAAA'' (on_timeout 35000 0 (on_advance 20000 ''m'' ''AAAA'' started))) = Some VOTE"
  by (simp add: started_eq ev)

subsection \<open>Creating a room\<close>

text \<open>
  C3, as the code has it. \<open>create_room\<close> draws one code of four characters of the
  restricted alphabet and stores the new room under it, with no look-up before and no
  second draw. Afterwards the drawn code holds the new room (LOBBY, the creator as host and
  only player) and every other code holds what it held; when the drawn code was free, the
  registry is the old one with the new room appended.
\<close>

theorem create_room_single_draw:
  "d0 < 32 \<and> d1 < 32 \<and> d2 < 32 \<and> d3 < 32 \<longrightarrow>
     length (code4 (d0, d1, d2, d3)) = 4 \<and>
     set (code4 (d0, d1, d2, d3)) \<subseteq> set chars \<and>
     getRoom c (on_create_room (d0, d1, d2, d3) i nm s) =
       (if c = code4 (d0, d1, d2, d3)
        then Some \<lparr>code = code4 (d0, d1, d2, d3), hostId = Some i, phase = LOBBY,
                   players = [(i, \<lparr>pid = i, name = name_or nm ''HOST'', alive = True,
                                   voteFor = None\<rparr>)],
                   assignments = [], nightActions = no_actions, timers = None\<rparr>
        else getRoom c s) \<and>
     (getRoom (code4 (d0, d1, d2, d3)) s = None \<longrightarrow>
        rooms (on_create_room (d0, d1, d2, d3) i nm s) =
          rooms s @ [(code4 (d0, d1, d2, d3),
            \<lparr>code = code4 (d0, d1, d2, d3), hostId = Some i, phase = LOBBY,
               players = [(i, \<lparr>pid = i, name = name_or nm ''HOST'', alive = True,
                               voteFor = None\<rparr>)],
               assignments = [], nightActions = no_actions, timers = None\<rparr>)])"
  by (simp add: code4_def chars_nth on_create_room_def Let_def broadcastState_def emit_def
        store_def getRoom_def update_conv' update_fresh update_at_end)

theorem create_room_single_draw_witness:
  "length (code4 (0, 0, 0, 0)) = 4 \<and>
   rooms (on_create_room (0, 0, 0, 0) ''a'' (Some ''Ann'') no_rooms) =
     [(code4 (0, 0, 0, 0),
       \<lparr>code = code4 (0, 0, 0, 0), hostId = Some ''a'', phase = LOBBY,
          players = [(''a'', \<lparr>pid = ''a'', name = name_or (Some ''Ann'') ''HOST'', alive = True,
                              voteFor = None\<rparr>)],
          assignments = [], nightActions = no_actions, timers = None\<rparr>)]"
proof -
  have h1: "(0::nat) < 32 \<and> (0::nat) < 32 \<and> (0::nat) < 32 \<and> (0::nat) < 32"
    by simp
  have h2: "getRoom (code4 (0, 0, 0, 0)) no_rooms = None"
    by (simp add: getRoom_def no_rooms_def)
  have r: "rooms no_rooms = []"
    by (simp add: no_rooms_def)
  show ?thesis
    using create_room_single_draw [of 0 0 0 0 "code4 (0, 0, 0, 0)" "''a''" "Some ''Ann''" no_rooms]
      h1 h2 r by simp
qed

text \<open>
  C3 as stated fails. Two \<open>create_room\<close> requests with the same four draws: the second
  one takes the place of the first room, whose host and player are gone from the registry.
\<close>

theorem create_room_overwrites_room:
  "map_option hostId
     (getRoom ''AAAA'' (on_create_room (0, 0, 0, 0) ''a'' (Some ''Ann'') no_rooms)) = Some (Some ''a'') \<and>
   map_option hostId
     (getRoom ''AAAA'' (on_create_room (0, 0, 0, 0) ''b'' (Some ''Bob'')
        (on_create_room (0, 0, 0, 0) ''a'' (Some ''Ann'') no_rooms))) = Some (Some ''b'') \<and>
   map_option (\<lambda>r. map fst (players r))
     (getRoom ''AAAA'' (on_create_room (0, 0, 0, 0) ''b'' (Some ''Bob'')
        (on_create_room (0, 0, 0, 0) ''a'' (Some ''Ann'') no_rooms))) = Some [''b''] \<and>
   length (rooms (on_create_room (0, 0, 0, 0) ''b'' (Some ''Bob'')
        (on_create_room (0, 0, 0, 0) ''a'' (Some ''Ann'') no_rooms))) = 1"
  by (simp add: on_create_room_def code4_def chars_def Let_def ev)

subsection \<open>The win check\<close>

text \<open>
  C4, as the code has it. \<open>checkWin\<close> runs in one place, when a room in RESOLVE is advanced
  (the step after the vote was resolved). There, with no alive murderer the room goes to
  END after a \<open>citizens_win\<close> message, which covers a room with nobody alive; with an alive
  murderer and at least as many alive murderers as other alive players it goes to END
  after \<open>murderer_win\<close>; otherwise it goes back to NIGHT. Leaving NIGHT, by \<open>advance\<close> alone
  or by the host's request with night resolution before it, always leads to DAY and sends
  no win message.
\<close>

theorem win_check_on_leaving_RESOLVE:
  "getRoom c s = Some r \<longrightarrow>
     (phase r = RESOLVE \<and> aliveM r = 0 \<longrightarrow>
        map_option phase (getRoom c (advance now c s)) = Some END \<and>
        sent (advance now c s) =
          sent s @ [to_channel (code r) (system_message ''citizens_win''),
                    to_channel (code r)
                      (room_state (code r) END (map publicPlayer (map snd (players r))))]) \<and>
     (phase r = RESOLVE \<and> 0 < aliveM r \<and> aliveC r \<le> int (aliveM r) \<longrightarrow>
        map_option phase (getRoom c (advance now c s)) = Some END \<and>
        sent (advance now c s) =
          sent s @ [to_channel (code r) (system_message ''murderer_win''),
                    to_channel (code r)
                      (room_state (code r) END (map publicPlayer (map snd (players r))))]) \<and>
     (phase r = RESOLVE \<and> 0 < aliveM r \<and> int (aliveM r) < aliveC r \<longrightarrow>
        map_option phase (getRoom c (advance now c s)) = Some NIGHT \<and>
        sent (advance now c s) =
          sent s @ [to_channel (code r)
                      (room_state (code r) NIGHT
                         (map publicPlayer (map snd
                            (map (\<lambda>e. (fst e, (snd e)\<lparr>voteFor := None\<rparr>)) (players r)))))]) \<and>
     (alivePlayers r = [] \<longrightarrow> aliveM r = 0) \<and>
     (phase r = NIGHT \<longrightarrow>
        map_option phase (getRoom c (advance now c s)) = Some DAY \<and>
        sent (advance now c s) =
          sent s @ [to_channel (code r)
                      (room_state (code r) DAY (map publicPlayer (map snd (players r))))]) \<and>
     (phase r = NIGHT \<and> hostId r = Some i \<longrightarrow>
        map_option phase (getRoom c (on_advance now i c s)) = Some DAY \<and>
        sent (on_advance now i c s) =
          sent (snd (applyNight r s)) @
            [to_channel (code r)
               (room_state (code r) DAY
                  (map publicPlayer (map snd (players (fst (applyNight r s))))))])"
  (is "_ \<longrightarrow> ?won_c \<and> ?won_m \<and> ?on \<and> ?nobody \<and> ?night \<and> ?host")
proof
  assume g: "getRoom c s = Some r"
  have a: ?won_c
    using advance_RESOLVE_won [OF g, of now] by (simp add: getRoom_store sent_store)
  have b: ?won_m
    using advance_RESOLVE_won [OF g, of now] by (simp add: getRoom_store sent_store)
  have c: ?on
    using advance_RESOLVE_on [OF g, of now] by (simp add: getRoom_store sent_store)
  have d: ?nobody
    by (simp add: aliveM_def)
  have e: ?night
    using advance_NIGHT [OF g, of now] by (simp add: getRoom_store sent_store)
  have f: ?host
    using on_advance_NIGHT [OF g, of i "fst (applyNight r s)" "snd (applyNight r s)" now]
    by (simp add: getRoom_store sent_store)
  from a b c d e f show "?won_c \<and> ?won_m \<and> ?on \<and> ?nobody \<and> ?night \<and> ?host"
    by blast
qed

theorem win_check_on_leaving_RESOLVE_witness:
  "map_option phase
     (getRoom ''AAAA'' (advance 7 ''AAAA'' (hosting (table RESOLVE two_left cast4 no_actions))))
     = Some END \<and>
   sent (advance 7 ''AAAA'' (hosting (table RESOLVE two_left cast4 no_actions))) =
     [to_channel ''AAAA'' (system_message ''murderer_win''),
      to_channel ''AAAA'' (room_state ''AAAA'' END
        [PublicPlayer ''m'' ''Mo'' True None, PublicPlayer ''t'' ''Tess'' False None,
         PublicPlayer ''d'' ''Dan'' True None, PublicPlayer ''c'' ''Cy'' False None])] \<and>
   sent (advance 7 ''AAAA'' (hosting (table RESOLVE none_left cast4 no_actions))) =
     [to_channel ''AAAA'' (system_message ''citizens_win''),
      to_channel ''AAAA'' (room_state ''AAAA'' END
        [PublicPlayer ''m'' ''Mo'' False None, PublicPlayer ''t'' ''Tess'' False None,
         PublicPlayer ''d'' ''Dan'' False None, PublicPlayer ''c'' ''Cy'' False None])]"
proof -
  let ?two = "table RESOLVE two_left cast4 no_actions"
  let ?none = "table RESOLVE none_left cast4 no_actions"
  have h1: "getRoom ''AAAA'' (hosting ?two) = Some ?two"
    by (simp add: ev)
  have h2: "phase ?two = RESOLVE \<and> 0 < aliveM ?two \<and> aliveC ?two \<le> int (aliveM ?two)"
    by (simp add: ev)
  have h3: "getRoom ''AAAA'' (hosting ?none) = Some ?none"
    by (simp add: ev)
  have h4: "phase ?none = RESOLVE \<and> aliveM ?none = 0"
    by (simp add: ev)
  have a: "map_option phase (getRoom ''AAAA'' (advance 7 ''AAAA'' (hosting ?two))) = Some END \<and>
        sent (advance 7 ''AAAA'' (hosting ?two)) =
          sent (hosting ?two) @ [to_channel (code ?two) (system_message ''murderer_win''),
                    to_channel (code ?two)
                      (room_state (code ?two) END (map publicPlayer (map snd (players ?two))))]"
    using win_check_on_leaving_RESOLVE [of "''AAAA''" "hosting ?two" ?two 7] h1 h2 by blast
  have b: "sent (advance 7 ''AAAA'' (hosting ?none)) =
          sent (hosting ?none) @ [to_channel (code ?none) (system_message ''citizens_win''),
                    to_channel (code ?none)
                      (room_state (code ?none) END (map publicPlayer (map snd (players ?none))))]"
    using win_check_on_leaving_RESOLVE [of "''AAAA''" "hosting ?none" ?none 7] h3 h4 by blast
  show ?thesis
    using a b by (simp add: ev)
qed

text \<open>
  C4 as stated fails after night resolution. The murderer, the doctor and the civilian are
  alive and the murderer has named the civilian; the host advances. The civilian dies,
  one murderer and one other player are left alive, and the room is in DAY with no
  \<open>murderer_win\<close> message.
\<close>

theorem no_win_check_after_night:
  "map_option aliveM (getRoom ''AAAA'' (on_advance 0 ''m'' ''AAAA''
      (hosting (table NIGHT three_left cast4 (no_actions\<lparr>kill := Some ''c''\<rparr>))))) = Some 1 \<and>
   map_option aliveC (getRoom ''AAAA'' (on_advance 0 ''m'' ''AAAA''
      (hosting (table NIGHT three_left cast4 (no_actions\<lparr>kill := Some ''c''\<rparr>))))) = Some 1 \<and>
   map_option phase (getRoom ''AAAA'' (on_advance 0 ''m'' ''AAAA''
      (hosting (table NIGHT three_left cast4 (no_actions\<lparr>kill := Some ''c''\<rparr>))))) = Some DAY \<and>
   sent (on_advance 0 ''m'' ''AAAA''
      (hosting (table NIGHT three_left cast4 (no_actions\<lparr>kill := Some ''c''\<rparr>)))) =
     [to_channel ''AAAA'' (system_message ''kill''),
      to_channel ''AAAA'' (room_state ''AAAA'' DAY
        [PublicPlayer ''m'' ''Mo'' True None, PublicPlayer ''t'' ''Tess'' False None,
         PublicPlayer ''d'' ''Dan'' True None, PublicPlayer ''c'' ''Cy'' False None])]"
  by (simp add: ev)

subsection \<open>Starting with too few players\<close>

text \<open>
  C8, as the code has it. A \<open>start_game\<close> request for a room with fewer than four players
  leaves the registry and the pending timers as they are, whoever sends it. When it comes
  from the room's host, the one message sent is \<open>need_4_players\<close>, to the requesting
  connection; when it comes from anybody else nothing at all is sent. \<open>assignRoles\<close> on
  fewer than four ids changes nothing.
\<close>

theorem start_game_too_few_players:
  "getRoom c s = Some r \<and> length (players r) < 4 \<longrightarrow>
     (hostId r = Some i \<longrightarrow>
        on_start_game shuffle now i c s =
          s\<lparr>sent := sent s @ [to_socket i (error_message ''need_4_players'')]\<rparr>) \<and>
     (hostId r \<noteq> Some i \<longrightarrow> on_start_game shuffle now i c s = s) \<and>
     rooms (on_start_game shuffle now i c s) = rooms s \<and>
     timeouts (on_start_game shuffle now i c s) = timeouts s \<and>
     (length (shuffle (map fst (players r))) = length (players r) \<longrightarrow>
        assignRoles shuffle r s = (r, s))"
  by (auto simp: on_start_game_def emit_def assignRoles_def)

theorem start_game_too_few_players_witness:
  "on_start_game (\<lambda>ks. ks) 0 ''m'' ''AAAA'' (hosting (table LOBBY two_seats [] no_actions)) =
     (hosting (table LOBBY two_seats [] no_actions))
       \<lparr>sent := [to_socket ''m'' (error_message ''need_4_players'')]\<rparr>"
proof -
  let ?r = "table LOBBY two_seats [] no_actions"
  have h1: "getRoom ''AAAA'' (hosting ?r) = Some ?r \<and> length (players ?r) < 4"
    by (simp add: ev)
  have h2: "hostId ?r = Some ''m''"
    by (simp add: ev)
  have "on_start_game (\<lambda>ks. ks) 0 ''m'' ''AAAA'' (hosting ?r) =
          (hosting ?r)\<lparr>sent := sent (hosting ?r) @ [to_socket ''m'' (error_message ''need_4_players'')]\<rparr>"
    using start_game_too_few_players [of "''AAAA''" "hosting ?r" ?r "''m''" "\<lambda>ks. ks" 0] h1 h2
    by blast
  then show ?thesis
    by (simp add: hosting_def)
qed

text \<open>
  C8 as stated fails for a requester who is not the host: in a lobby of two, the request
  of \<open>t\<close> is dropped and no error message goes out.
\<close>

theorem start_game_non_host_silent:
  "map_option (\<lambda>r. length (players r) < 4)
     (getRoom ''AAAA'' (hosting (table LOBBY two_seats [] no_actions))) = Some True \<and>
   on_start_game (\<lambda>ks. ks) 0 ''t'' ''AAAA'' (hosting (table LOBBY two_seats [] no_actions)) =
     hosting (table LOBBY two_seats [] no_actions) \<and>
   sent (on_start_game (\<lambda>ks. ks) 0 ''t'' ''AAAA''
           (hosting (table LOBBY two_seats [] no_actions))) = []"
  by (simp add: on_start_game_def ev)

subsection \<open>Night actions of dead players\<close>

text \<open>
  C10. \<open>night_action\<close> never reads the submitter's own \<open>alive\<close> flag: in NIGHT, for a
  submitter with a role and an alive target, the murderer's target is recorded as \<open>kill\<close>,
  the doctor's as \<open>save\<close>, the detective's as \<open>inspect\<close> with an \<open>inspect_result\<close> sent to
  the detective, and a civilian has nothing to record. Nothing is assumed about the
  submitter, who may be dead. A recorded kill is what \<open>applyNight\<close> later carries out.
\<close>

theorem night_action_ignores_submitter_alive:
  "getRoom c s = Some r \<and> phase r = NIGHT \<and> map_of (assignments r) i = Some rl \<and>
   map_of (players r) t = Some p \<and> alive p \<longrightarrow>
     on_night_action i c (Some t) s =
       (case rl of
          MURDERER \<Rightarrow> store c (r\<lparr>nightActions := (nightActions r)\<lparr>kill := Some t\<rparr>\<rparr>) s
        | DOCTOR \<Rightarrow> store c (r\<lparr>nightActions := (nightActions r)\<lparr>save := Some t\<rparr>\<rparr>) s
        | DETECTIVE \<Rightarrow>
            emit (to_channel i (inspect_result t
                    (if map_of (assignments r) t = Some MURDERER then evil else good)))
              (store c (r\<lparr>nightActions := (nightActions r)\<lparr>inspect := Some t\<rparr>\<rparr>) s)
        | CIVILIAN \<Rightarrow> s) \<and>
     (rl = MURDERER \<and> t \<noteq> [] \<and> save (nightActions r) \<noteq> Some t \<longrightarrow>
        map_option (\<lambda>r'. applyNight r' s') (getRoom c (on_night_action i c (Some t) s)) =
          Some (r\<lparr>nightActions := (nightActions r)\<lparr>kill := Some t\<rparr>,
                  players := AList.update t (p\<lparr>alive := False\<rparr>) (players r)\<rparr>,
                emit (to_channel (code r) (system_message ''kill'')) s'))"
  by (cases rl) (auto simp: on_night_action_def getRoom_store store_same applyNight_def)

theorem night_action_ignores_submitter_alive_witness:
  "map_option alive (map_of graveyard ''m'') = Some False \<and>
   map_option nightActions
     (getRoom ''AAAA'' (on_night_action ''m'' ''AAAA'' (Some ''c'')
        (hosting (table NIGHT graveyard cast4 no_actions))))
     = Some (no_actions\<lparr>kill := Some ''c''\<rparr>) \<and>
   map_option alive (map_of three_left ''t'') = Some False \<and>
   sent (on_night_action ''t'' ''AAAA'' (Some ''m'')
           (hosting (table NIGHT three_left cast4 no_actions)))
     = [to_channel ''t'' (inspect_result ''m'' evil)]"
proof -
  let ?r = "table NIGHT graveyard cast4 no_actions"
  let ?q = "table NIGHT three_left cast4 no_actions"
  let ?cy = "\<lparr>pid = ''c'', name = ''Cy'', alive = True, voteFor = None\<rparr>"
  let ?mo = "\<lparr>pid = ''m'', name = ''Mo'', alive = True, voteFor = None\<rparr>"
  have h1: "getRoom ''AAAA'' (hosting ?r) = Some ?r \<and> phase ?r = NIGHT \<and>
            map_of (assignments ?r) ''m'' = Some MURDERER \<and>
            map_of (players ?r) ''c'' = Some ?cy \<and> alive ?cy"
    by (simp add: ev)
  have h2: "getRoom ''AAAA'' (hosting ?q) = Some ?q \<and> phase ?q = NIGHT \<and>
            map_of (assignments ?q) ''t'' = Some DETECTIVE \<and>
            map_of (players ?q) ''m'' = Some ?mo \<and> alive ?mo"
    by (simp add: ev)
  have a: "on_night_action ''m'' ''AAAA'' (Some ''c'') (hosting ?r) =
             store ''AAAA'' (?r\<lparr>nightActions := (nightActions ?r)\<lparr>kill := Some ''c''\<rparr>\<rparr>) (hosting ?r)"
    using night_action_ignores_submitter_alive
            [of "''AAAA''" "hosting ?r" ?r "''m''" MURDERER "''c''" ?cy] h1
    by simp
  have b: "on_night_action ''t'' ''AAAA'' (Some ''m'') (hosting ?q) =
             emit (to_channel ''t'' (inspect_result ''m''
                    (if map_of (assignments ?q) ''m'' = Some MURDERER then evil else good)))
               (store ''AAAA'' (?q\<lparr>nightActions := (nightActions ?q)\<lparr>inspect := Some ''m''\<rparr>\<rparr>)
                  (hosting ?q))"
    using night_action_ignores_submitter_alive
            [of "''AAAA''" "hosting ?q" ?q "''t''" DETECTIVE "''m''" ?mo] h2
    by simp
  show ?thesis
    unfolding a b by (simp add: ev)
qed

subsection \<open>Vote resolution\<close>

lemma map_of_tally_add:
  "map_of (tally_add t acc) = (map_of acc)(t := vote_step t (map_of acc t))"
  by (auto simp: tally_add_def vote_step_def update_conv' fun_eq_iff
        split: option.splits tally_value.splits)

lemma map_of_tally_votes:
  "map_of (tally_votes ps acc) t = (vote_step t ^^ count_list (ballots ps) t) (map_of acc t)"
proof (induction ps arbitrary: acc)
  case Nil
  then show ?case by simp
next
  case (Cons p ps)
  show ?case
  proof (cases "voteFor p")
    case None
    then show ?thesis using Cons.IH [of acc] by simp
  next
    case (Some u)
    show ?thesis
    proof (cases "alive p \<and> u \<noteq> []")
      case True
      then show ?thesis
        using Some Cons.IH [of "tally_add u acc"]
        by (simp add: map_of_tally_add funpow_swap1)
    next
      case False
      then show ?thesis using Some Cons.IH [of acc] by auto
    qed
  qed
qed

lemma vote_step_plain:
  "t \<notin> set inherited_keys \<Longrightarrow>
   (vote_step t ^^ k) None = (if k = 0 then None else Some (Num k))"
proof (induction k)
  case 0
  then show ?case by simp
next
  case (Suc k)
  have "t \<noteq> ''__proto__''"
    using Suc.prems by (auto simp: inherited_keys_def)
  then show ?case
    using Suc by (simp add: vote_step_def)
qed

lemma distinct_tally_add:
  "distinct (map fst acc) \<Longrightarrow> distinct (map fst (tally_add t acc))"
  by (simp add: tally_add_def distinct_update split: option.splits tally_value.splits)

lemma distinct_tally_votes:
  "distinct (map fst acc) \<Longrightarrow> distinct (map fst (tally_votes ps acc))"
  by (induction ps arbitrary: acc) (auto simp: distinct_tally_add split: option.splits)

lemma ballots_nonempty: "t \<in> set (ballots ps) \<Longrightarrow> t \<noteq> []"
  by (induction ps) (auto split: option.splits if_splits)

lemma count_list_pos: "0 < count_list xs x \<longleftrightarrow> x \<in> set xs"
  using count_list_0_iff [of xs x] by auto

lemma tally_entries:
  assumes "\<forall>u \<in> set (ballots ps). u \<notin> set inherited_keys"
  shows "(t, v) \<in> set (tally_votes ps []) \<longleftrightarrow>
           t \<in> set (ballots ps) \<and> v = Num (count_list (ballots ps) t)"
proof -
  have "(t, v) \<in> set (tally_votes ps []) \<longleftrightarrow> map_of (tally_votes ps []) t = Some v"
    using distinct_tally_votes [of "[]" ps] by simp
  also have "\<dots> \<longleftrightarrow> (vote_step t ^^ count_list (ballots ps) t) None = Some v"
    by (simp add: map_of_tally_votes)
  also have "\<dots> \<longleftrightarrow> t \<in> set (ballots ps) \<and> v = Num (count_list (ballots ps) t)"
  proof (cases "t \<in> set (ballots ps)")
    case True
    then have "t \<notin> set inherited_keys" "count_list (ballots ps) t \<noteq> 0"
      using assms by (simp_all add: count_list_0_iff)
    then show ?thesis
      using True by (auto simp: vote_step_plain)
  next
    case False
    then have "count_list (ballots ps) t = 0"
      by (simp add: count_list_0_iff)
    then show ?thesis
      using False by simp
  qed
  finally show ?thesis .
qed

lemma set_counts: "(k, n) \<in> set (counts es) \<longleftrightarrow> (k, Num n) \<in> set es"
  by (induction es rule: counts.induct) auto

lemma keys_counts: "k \<in> fst ` set (counts es) \<Longrightarrow> k \<in> fst ` set es"
  by (induction es rule: counts.induct) auto

lemma distinct_counts: "distinct (map fst es) \<Longrightarrow> distinct (map fst (counts es))"
proof (induction es rule: counts.induct)
  case 1
  then show ?case by simp
next
  case (2 k n es)
  then show ?case
    using keys_counts [of k es] by auto
next
  case (3 k es)
  then show ?case by simp
qed

lemma counts_append: "counts (es @ es') = counts es @ counts es'"
  by (induction es rule: counts.induct) auto

lemma scan_step_Str: "scan_step (k, Str) st = st"
  by (cases st) simp

lemma scan_step_scanned:
  assumes "scanned es st" and "0 < n" and "k \<notin> fst ` set es"
  shows "scanned (es @ [(k, n)]) (scan_step (k, Num n) st)"
proof -
  obtain mx target tie where st: "st = (mx, target, tie)"
    by (cases st) auto
  have inv: "\<forall>e \<in> set es. snd e \<le> mx" "es = [] \<longrightarrow> mx = 0 \<and> target = None"
    "es \<noteq> [] \<longrightarrow> (\<exists>t. target = Some t \<and> (t, mx) \<in> set es)"
    "tie \<longleftrightarrow> (\<exists>k k'. k \<noteq> k' \<and> (k, mx) \<in> set es \<and> (k', mx) \<in> set es)"
    using assms(1) by (simp_all add: scanned_def st)
  have fresh: "\<And>m. (k, m) \<notin> set es"
    using assms(3) by force
  consider (above) "mx < n" | (level) "n = mx" | (below) "n < mx"
    by linarith
  then show ?thesis
  proof cases
    case above
    have "\<And>j. (j, n) \<in> set es \<Longrightarrow> False"
      using inv(1) above by force
    then show ?thesis
      using above inv(1) by (auto simp: scanned_def st)
  next
    case level
    then have "es \<noteq> []"
      using inv(2) assms(2) by auto
    then obtain t where t: "target = Some t" "(t, mx) \<in> set es"
      using inv(3) by auto
    have "t \<noteq> k"
      using t(2) fresh by auto
    then show ?thesis
      using level inv(1) t by (auto simp: scanned_def st)
  next
    case below
    then have "es \<noteq> []"
      using inv(2) by auto
    then show ?thesis
      using below inv by (auto simp: scanned_def st)
  qed
qed

lemma fold_scanned:
  "distinct (map fst es) \<Longrightarrow> \<forall>e \<in> set (counts es). 0 < snd e \<Longrightarrow>
   scanned (counts es) (fold scan_step es (0, None, False))"
proof (induction es rule: rev_induct)
  case Nil
  then show ?case by (simp add: scanned_def)
next
  case (snoc e es)
  obtain k v where e: "e = (k, v)"
    by (cases e) auto
  have ih: "scanned (counts es) (fold scan_step es (0, None, False))"
    using snoc by (simp add: counts_append)
  show ?case
  proof (cases v)
    case (Num n)
    have "0 < n"
      using snoc.prems(2) by (simp add: counts_append e Num)
    moreover have "k \<notin> fst ` set (counts es)"
      using snoc.prems(1) keys_counts [of k es] by (auto simp: e)
    ultimately show ?thesis
      using scan_step_scanned [OF ih, of n k] by (simp add: counts_append e Num)
  next
    case Str
    then show ?thesis
      using ih by (simp add: counts_append e scan_step_Str)
  qed
qed

text \<open>
  \<open>Object.entries\<close> lists the keys of the tally that are array indices first, in
  ascending order, and the other keys in the order they were written. The outcome of the
  second loop does not depend on the order of the entries, so the order of first writing
  stands for every order.
\<close>

lemma scan_any_order:
  assumes "distinct (map fst es)" and "distinct (map fst es')" and "set es = set es'"
    and "\<forall>e \<in> set (counts es). 0 < snd e"
    and "fold scan_step es (0, None, False) = (mx, target, tie)"
    and "fold scan_step es' (0, None, False) = (mx', target', tie')"
  shows "(\<not> truthy target \<or> tie) = (\<not> truthy target' \<or> tie') \<and> (\<not> tie \<longrightarrow> target = target')"
proof -
  let ?cs = "counts es"
  have same: "set (counts es') = set ?cs"
    using assms(3) by (auto simp: set_counts)
  have inv: "\<forall>e \<in> set ?cs. snd e \<le> mx" "set ?cs = {} \<longrightarrow> mx = 0 \<and> target = None"
    "set ?cs \<noteq> {} \<longrightarrow> (\<exists>t. target = Some t \<and> (t, mx) \<in> set ?cs)"
    "tie \<longleftrightarrow> (\<exists>k k'. k \<noteq> k' \<and> (k, mx) \<in> set ?cs \<and> (k', mx) \<in> set ?cs)"
    using fold_scanned [OF assms(1) assms(4)] by (simp_all add: scanned_def assms(5))
  have pos': "\<forall>e \<in> set (counts es'). 0 < snd e"
    using assms(4) same by simp
  have inv': "\<forall>e \<in> set ?cs. snd e \<le> mx'" "set ?cs = {} \<longrightarrow> mx' = 0 \<and> target' = None"
    "set ?cs \<noteq> {} \<longrightarrow> (\<exists>t. target' = Some t \<and> (t, mx') \<in> set ?cs)"
    "tie' \<longleftrightarrow> (\<exists>k k'. k \<noteq> k' \<and> (k, mx') \<in> set ?cs \<and> (k', mx') \<in> set ?cs)"
    using fold_scanned [OF assms(2) pos'] same
    by (simp_all add: scanned_def assms(6) flip: set_empty)
  have m: "mx = mx'"
  proof (cases "set ?cs = {}")
    case True
    then show ?thesis using inv(2) inv'(2) by simp
  next
    case False
    then obtain t t' where "(t, mx) \<in> set ?cs" "(t', mx') \<in> set ?cs"
      using inv(3) inv'(3) by auto
    then have "mx \<le> mx'" "mx' \<le> mx"
      using inv(1) inv'(1) by force+
    then show ?thesis by simp
  qed
  have t: "tie = tie'"
    using inv(4) inv'(4) m by simp
  have "target = target'" if "\<not> tie"
  proof (cases "set ?cs = {}")
    case True
    then show ?thesis using inv(2) inv'(2) by simp
  next
    case False
    then obtain u u' where u: "target = Some u" "(u, mx) \<in> set ?cs"
        "target' = Some u'" "(u', mx) \<in> set ?cs"
      using inv(3) inv'(3) m by auto
    then have "u = u'"
      using that inv(4) by blast
    then show ?thesis using u by simp
  qed
  then show ?thesis
    using t by auto
qed

lemma counts_tally:
  assumes "\<forall>u \<in> set (ballots ps). u \<notin> set inherited_keys"
  shows "(t, n) \<in> set (counts (tally_votes ps [])) \<longleftrightarrow>
           t \<in> set (ballots ps) \<and> n = count_list (ballots ps) t"
  using tally_entries [OF assms, of t "Num n"] by (simp add: set_counts)

lemma tally_positive:
  assumes "\<forall>u \<in> set (ballots ps). u \<notin> set inherited_keys"
  shows "\<forall>e \<in> set (counts (tally_votes ps [])). 0 < snd e"
proof
  fix e assume e: "e \<in> set (counts (tally_votes ps []))"
  obtain t n where "e = (t, n)" by (cases e) auto
  then show "0 < snd e"
    using e counts_tally [OF assms, of t n] by (auto simp: count_list_pos)
qed

lemma scanned_tally:
  assumes "\<forall>u \<in> set (ballots ps). u \<notin> set inherited_keys"
  shows "scanned (counts (tally_votes ps []))
           (fold scan_step (tally_votes ps []) (0, None, False))"
  using fold_scanned [OF _ tally_positive [OF assms]] distinct_tally_votes [of "[]" ps] by simp

lemma scan_leader:
  assumes "plain_votes r" and "leads r t"
  shows "\<exists>mx. fold scan_step (tally_votes (map snd (players r)) []) (0, None, False)
           = (mx, Some t, False)"
proof -
  let ?ps = "map snd (players r)"
  let ?es = "counts (tally_votes ?ps [])"
  have plain: "\<forall>u \<in> set (ballots ?ps). u \<notin> set inherited_keys"
    using assms(1) by (simp add: plain_votes_def)
  obtain mx target tie where
    f: "fold scan_step (tally_votes ?ps []) (0, None, False) = (mx, target, tie)"
    by (cases "fold scan_step (tally_votes ?ps []) (0, None, False)") auto
  have inv: "\<forall>e \<in> set ?es. snd e \<le> mx"
    "?es \<noteq> [] \<longrightarrow> (\<exists>u. target = Some u \<and> (u, mx) \<in> set ?es)"
    "tie \<longleftrightarrow> (\<exists>k k'. k \<noteq> k' \<and> (k, mx) \<in> set ?es \<and> (k', mx) \<in> set ?es)"
    using scanned_tally [OF plain] by (simp_all add: scanned_def f)
  have lead: "t \<in> set (ballots ?ps)"
    "\<And>u. u \<in> set (ballots ?ps) \<Longrightarrow> u \<noteq> t \<Longrightarrow>
       count_list (ballots ?ps) u < count_list (ballots ?ps) t"
    using assms(2) by (auto simp: leads_def votes_def count_list_pos)
  have t_in: "(t, count_list (ballots ?ps) t) \<in> set ?es"
    using lead(1) by (simp add: counts_tally [OF plain])
  then have le: "count_list (ballots ?ps) t \<le> mx"
    using inv(1) by force
  have only: "k = t" if "(k, mx) \<in> set ?es" for k
  proof (rule ccontr)
    assume "k \<noteq> t"
    moreover have "k \<in> set (ballots ?ps)" "mx = count_list (ballots ?ps) k"
      using that by (simp_all add: counts_tally [OF plain])
    ultimately show False
      using lead(2) [of k] le by simp
  qed
  obtain u where u: "target = Some u" "(u, mx) \<in> set ?es"
    using inv(2) t_in by auto
  have "target = Some t"
    using u only by auto
  moreover have "\<not> tie"
    using inv(3) only by blast
  ultimately show ?thesis
    using f by simp
qed

lemma scan_no_leader:
  assumes "plain_votes r"
    and "\<forall>u \<in> set (ballots (map snd (players r))). \<not> leads r u"
    and "fold scan_step (tally_votes (map snd (players r)) []) (0, None, False)
           = (mx, target, tie)"
  shows "\<not> truthy target \<or> tie"
proof -
  let ?ps = "map snd (players r)"
  let ?es = "counts (tally_votes ?ps [])"
  have plain: "\<forall>u \<in> set (ballots ?ps). u \<notin> set inherited_keys"
    using assms(1) by (simp add: plain_votes_def)
  have inv: "\<forall>e \<in> set ?es. snd e \<le> mx"
    "?es = [] \<longrightarrow> target = None"
    "?es \<noteq> [] \<longrightarrow> (\<exists>u. target = Some u \<and> (u, mx) \<in> set ?es)"
    "tie \<longleftrightarrow> (\<exists>k k'. k \<noteq> k' \<and> (k, mx) \<in> set ?es \<and> (k', mx) \<in> set ?es)"
    using scanned_tally [OF plain] by (simp_all add: scanned_def assms(3))
  show ?thesis
  proof (cases "?es = []")
    case True
    then show ?thesis
      using inv(2) by simp
  next
    case False
    then obtain t where t: "target = Some t" "(t, mx) \<in> set ?es"
      using inv(3) by auto
    have tb: "t \<in> set (ballots ?ps)" "mx = count_list (ballots ?ps) t"
      using t(2) by (simp_all add: counts_tally [OF plain])
    then have "\<not> leads r t"
      using assms(2) by simp
    then obtain u where u: "u \<in> set (ballots ?ps)" "u \<noteq> t"
        "count_list (ballots ?ps) t \<le> count_list (ballots ?ps) u"
      using tb(1) by (auto simp: leads_def votes_def count_list_pos not_less)
    have "(u, count_list (ballots ?ps) u) \<in> set ?es"
      using u(1) by (simp add: counts_tally [OF plain])
    moreover from this have "count_list (ballots ?ps) u \<le> mx"
      using inv(1) by force
    ultimately have "(u, mx) \<in> set ?es"
      using u(3) tb(2) by simp
    then show ?thesis
      using inv(4) t(2) u(2) by blast
  qed
qed

lemma advance_VOTE:
  "getRoom c s = Some r \<Longrightarrow> phase r = VOTE \<Longrightarrow>
   advance now c s =
     store c
       (fst (resolveVotes (r\<lparr>phase := RESOLVE, timers := Some (now + 3000)\<rparr>)
          (s\<lparr>timeouts := timeouts s @ [(code r, 3000)],
             sent := sent s @ [to_channel (code r)
                       (room_state (code r) RESOLVE (map publicPlayer (map snd (players r))))]\<rparr>)))
       (snd (resolveVotes (r\<lparr>phase := RESOLVE, timers := Some (now + 3000)\<rparr>)
          (s\<lparr>timeouts := timeouts s @ [(code r, 3000)],
             sent := sent s @ [to_channel (code r)
                       (room_state (code r) RESOLVE (map publicPlayer (map snd (players r))))]\<rparr>)))"
  by (simp add: advance_def setPhase_timed case_prod_beta)

text \<open>
  A vote for a key that the tally inherits is stored as a string and passed over by the
  scan: with two votes for \<open>constructor\<close> and one for \<open>c\<close>, it is \<open>c\<close> who is ejected.
\<close>

lemma inherited_key_votes_passed_over:
  "resolveVotes (table RESOLVE votes_for_constructor cast4 no_actions) no_rooms =
     (table RESOLVE
        [seat ''m'' ''Mo'' True (Some ''constructor''), seat ''t'' ''Tess'' True (Some ''constructor''),
         seat ''d'' ''Dan'' True (Some ''c''), seat ''c'' ''Cy'' False None]
        cast4 no_actions,
      no_rooms\<lparr>sent := [to_channel ''AAAA'' (system_message ''eject:Cy'')]\<rparr>)"
  by (simp add: ev)

text \<open>
  C5, as the code has it, for votes that name ordinary keys (no counted vote names a
  property that every object inherits, such as \<open>constructor\<close> or \<open>__proto__\<close>).
  \<open>resolveVotes\<close> tallies the votes of alive players by target. When one target has the
  strictly highest tally and is an alive player of the room, that player is set not-alive
  and \<open>eject:\<close> with the player's name is sent to the room. When the target with the
  strictly highest tally is not a player of the room or is already dead, nothing changes
  and nothing is sent. When no vote was cast or the top tally is shared, nothing changes
  and \<open>no_eject\<close> is sent. So at most one of the two announcements is sent. The advance
  of a room in VOTE puts the room in RESOLVE, broadcasts its state and stores what
  \<open>resolveVotes\<close> then makes of it.
\<close>

theorem resolveVotes_outcome:
  "(plain_votes r \<longrightarrow>
      (leads r t \<and> map_of (players r) t = Some v \<and> alive v \<longrightarrow>
         resolveVotes r s =
           (r\<lparr>players := AList.update t (v\<lparr>alive := False\<rparr>) (players r)\<rparr>,
            emit (to_channel (code r) (system_message (''eject:'' @ name v))) s)) \<and>
      (leads r t \<and> (map_of (players r) t = None \<or>
                     map_option alive (map_of (players r) t) = Some False) \<longrightarrow>
         resolveVotes r s = (r, s)) \<and>
      ((\<forall>u \<in> set (ballots (map snd (players r))). \<not> leads r u) \<longrightarrow>
         resolveVotes r s = (r, emit (to_channel (code r) (system_message ''no_eject'')) s))) \<and>
   (getRoom c s = Some r \<and> phase r = VOTE \<longrightarrow>
      advance now c s =
        store c
          (fst (resolveVotes (r\<lparr>phase := RESOLVE, timers := Some (now + 3000)\<rparr>)
             (s\<lparr>timeouts := timeouts s @ [(code r, 3000)],
                sent := sent s @ [to_channel (code r)
                          (room_state (code r) RESOLVE (map publicPlayer (map snd (players r))))]\<rparr>)))
          (snd (resolveVotes (r\<lparr>phase := RESOLVE, timers := Some (now + 3000)\<rparr>)
             (s\<lparr>timeouts := timeouts s @ [(code r, 3000)],
                sent := sent s @ [to_channel (code r)
                          (room_state (code r) RESOLVE (map publicPlayer (map snd (players r))))]\<rparr>))))"
  (is "(_ \<longrightarrow> ?eject \<and> ?nothing \<and> ?no_eject) \<and> ?advance")
proof (intro conjI impI)
  assume p: "plain_votes r" and a: "leads r t \<and> map_of (players r) t = Some v \<and> alive v"
  then have "t \<in> set (ballots (map snd (players r)))"
    by (simp add: leads_def votes_def count_list_pos)
  then have "t \<noteq> []"
    by (rule ballots_nonempty)
  moreover obtain mx where
    "fold scan_step (tally_votes (map snd (players r)) []) (0, None, False) = (mx, Some t, False)"
    using scan_leader p a by blast
  ultimately show "resolveVotes r s =
        (r\<lparr>players := AList.update t (v\<lparr>alive := False\<rparr>) (players r)\<rparr>,
         emit (to_channel (code r) (system_message (''eject:'' @ name v))) s)"
    using a by (simp add: resolveVotes_def)
next
  assume p: "plain_votes r" and a: "leads r t \<and> (map_of (players r) t = None \<or>
                  map_option alive (map_of (players r) t) = Some False)"
  then have "t \<in> set (ballots (map snd (players r)))"
    by (simp add: leads_def votes_def count_list_pos)
  then have "t \<noteq> []"
    by (rule ballots_nonempty)
  moreover obtain mx where
    "fold scan_step (tally_votes (map snd (players r)) []) (0, None, False) = (mx, Some t, False)"
    using scan_leader p a by blast
  ultimately show "resolveVotes r s = (r, s)"
    using a by (auto simp: resolveVotes_def)
next
  assume p: "plain_votes r" and a: "\<forall>u \<in> set (ballots (map snd (players r))). \<not> leads r u"
  obtain mx target tie where
    f: "fold scan_step (tally_votes (map snd (players r)) []) (0, None, False) = (mx, target, tie)"
    by (cases "fold scan_step (tally_votes (map snd (players r)) []) (0, None, False)") auto
  have "\<not> truthy target \<or> tie"
    using scan_no_leader [OF p a f] .
  then show "resolveVotes r s = (r, emit (to_channel (code r) (system_message ''no_eject'')) s)"
    using f by (auto simp: resolveVotes_def)
next
  assume "getRoom c s = Some r \<and> phase r = VOTE"
  then show "advance now c s =
        store c
          (fst (resolveVotes (r\<lparr>phase := RESOLVE, timers := Some (now + 3000)\<rparr>)
             (s\<lparr>timeouts := timeouts s @ [(code r, 3000)],
                sent := sent s @ [to_channel (code r)
                          (room_state (code r) RESOLVE (map publicPlayer (map snd (players r))))]\<rparr>)))
          (snd (resolveVotes (r\<lparr>phase := RESOLVE, timers := Some (now + 3000)\<rparr>)
             (s\<lparr>timeouts := timeouts s @ [(code r, 3000)],
                sent := sent s @ [to_channel (code r)
                          (room_state (code r) RESOLVE (map publicPlayer (map snd (players r))))]\<rparr>)))"
    using advance_VOTE [of c s r now] by simp
qed

theorem resolveVotes_outcome_witness:
  "resolveVotes (table RESOLVE votes_3_1 cast4 no_actions) no_rooms =
     (table RESOLVE
        [seat ''m'' ''Mo'' True (Some ''c''), seat ''t'' ''Tess'' True (Some ''c''),
         seat ''d'' ''Dan'' True (Some ''c''), seat ''c'' ''Cy'' False (Some ''m'')]
        cast4 no_actions,
      no_rooms\<lparr>sent := [to_channel ''AAAA'' (system_message ''eject:Cy'')]\<rparr>) \<and>
   resolveVotes (table RESOLVE votes_2_2 cast4 no_actions) no_rooms =
     (table RESOLVE votes_2_2 cast4 no_actions,
      no_rooms\<lparr>sent := [to_channel ''AAAA'' (system_message ''no_eject'')]\<rparr>) \<and>
   resolveVotes (table RESOLVE vote_for_dead cast4 no_actions) no_rooms =
     (table RESOLVE vote_for_dead cast4 no_actions, no_rooms) \<and>
   map_option phase
     (getRoom ''AAAA'' (advance 0 ''AAAA'' (hosting (table VOTE votes_2_2 cast4 no_actions))))
     = Some RESOLVE \<and>
   sent (advance 0 ''AAAA'' (hosting (table VOTE votes_2_2 cast4 no_actions))) =
     [to_channel ''AAAA'' (room_state ''AAAA'' RESOLVE
        [PublicPlayer ''m'' ''Mo'' True (Some ''c''), PublicPlayer ''t'' ''Tess'' True (Some ''c''),
         PublicPlayer ''d'' ''Dan'' True (Some ''m''), PublicPlayer ''c'' ''Cy'' True (Some ''m'')]),
      to_channel ''AAAA'' (system_message ''no_eject'')]"
proof -
  let ?won = "table RESOLVE votes_3_1 cast4 no_actions"
  let ?tied = "table RESOLVE votes_2_2 cast4 no_actions"
  let ?dead = "table RESOLVE vote_for_dead cast4 no_actions"
  let ?cy = "\<lparr>pid = ''c'', name = ''Cy'', alive = True, voteFor = Some ''m''\<rparr>"
  let ?open = "table VOTE votes_2_2 cast4 no_actions"
  let ?closed = "?open\<lparr>phase := RESOLVE, timers := Some (0 + 3000)\<rparr>"
  let ?told = "(hosting ?open)\<lparr>timeouts := timeouts (hosting ?open) @ [(code ?open, 3000)],
                 sent := sent (hosting ?open) @ [to_channel (code ?open)
                   (room_state (code ?open) RESOLVE (map publicPlayer (map snd (players ?open))))]\<rparr>"
  have p1: "plain_votes ?won" and p2: "plain_votes ?tied" and p3: "plain_votes ?dead"
    and p4: "plain_votes ?closed"
    by (simp_all add: plain_votes_def ev)
  have h1: "leads ?won ''c'' \<and> map_of (players ?won) ''c'' = Some ?cy \<and> alive ?cy"
    by (simp add: leads_def votes_def ev)
  have h2: "\<forall>u \<in> set (ballots (map snd (players ?tied))). \<not> leads ?tied u"
    by (simp add: leads_def votes_def ev)
  have h3: "leads ?dead ''t'' \<and> (map_of (players ?dead) ''t'' = None \<or>
              map_option alive (map_of (players ?dead) ''t'') = Some False)"
    by (simp add: leads_def votes_def ev)
  have h4: "\<forall>u \<in> set (ballots (map snd (players ?closed))). \<not> leads ?closed u"
    by (simp add: leads_def votes_def ev)
  have h5: "getRoom ''AAAA'' (hosting ?open) = Some ?open \<and> phase ?open = VOTE"
    by (simp add: ev)
  have a: "resolveVotes ?won no_rooms =
        (?won\<lparr>players := AList.update ''c'' (?cy\<lparr>alive := False\<rparr>) (players ?won)\<rparr>,
         emit (to_channel (code ?won) (system_message (''eject:'' @ name ?cy))) no_rooms)"
    using resolveVotes_outcome [of ?won "''c''" ?cy no_rooms] p1 h1 by blast
  have b: "resolveVotes ?tied no_rooms =
        (?tied, emit (to_channel (code ?tied) (system_message ''no_eject'')) no_rooms)"
    using resolveVotes_outcome [of ?tied "''c''" ?cy no_rooms] p2 h2 by blast
  have c: "resolveVotes ?dead no_rooms = (?dead, no_rooms)"
    using resolveVotes_outcome [of ?dead "''t''" ?cy no_rooms] p3 h3 by blast
  have d: "resolveVotes ?closed ?told =
        (?closed, emit (to_channel (code ?closed) (system_message ''no_eject'')) ?told)"
    using resolveVotes_outcome [of ?closed "''c''" ?cy ?told] p4 h4 by blast
  have e: "advance 0 ''AAAA'' (hosting ?open) =
        store ''AAAA'' (fst (resolveVotes ?closed ?told)) (snd (resolveVotes ?closed ?told))"
    using resolveVotes_outcome [of ?open "''c''" ?cy "hosting ?open" "''AAAA''" 0] h5 by blast
  show ?thesis
    unfolding a b c e d by (simp add: ev)
qed

text \<open>
  C5 as stated fails where the only vote names a dead player: that target alone has the
  highest tally, yet nobody is set not-alive and the advance from VOTE sends the
  \<open>room_state\<close> of RESOLVE and neither announcement.
\<close>

theorem vote_for_dead_no_announcement:
  "votes (table VOTE vote_for_dead cast4 no_actions) ''t'' = 1 \<and>
   leads (table VOTE vote_for_dead cast4 no_actions) ''t'' \<and>
   map_option players
     (getRoom ''AAAA'' (advance 0 ''AAAA'' (hosting (table VOTE vote_for_dead cast4 no_actions))))
     = Some vote_for_dead \<and>
   sent (advance 0 ''AAAA'' (hosting (table VOTE vote_for_dead cast4 no_actions))) =
     [to_channel ''AAAA'' (room_state ''AAAA'' RESOLVE
        [PublicPlayer ''m'' ''Mo'' True (Some ''t''), PublicPlayer ''t'' ''Tess'' False None,
         PublicPlayer ''d'' ''Dan'' True None, PublicPlayer ''c'' ''Cy'' True None])]"
  by (simp add: leads_def votes_def ev)

subsection \<open>Role assignment\<close>

lemma fold_update_fresh:
  "distinct ks \<Longrightarrow> set ks \<inter> fst ` set al = {} \<Longrightarrow>
   fold (\<lambda>i. AList.update i v) ks al = al @ map (\<lambda>i. (i, v)) ks"
proof (induction ks arbitrary: al)
  case Nil
  then show ?case by simp
next
  case (Cons k ks)
  have "map_of al k = None"
    using Cons.prems(2) by (simp add: map_of_eq_None_iff)
  then have u: "AList.update k v al = al @ [(k, v)]"
    by (rule update_fresh)
  have "set ks \<inter> fst ` set (al @ [(k, v)]) = {}"
    using Cons.prems by auto
  then show ?case
    using Cons.IH [of "al @ [(k, v)]"] Cons.prems(1) by (simp add: u)
qed

lemma assignments_in_order:
  assumes "distinct (i0 # i1 # i2 # rest)"
  shows "fold (\<lambda>i. AList.update i CIVILIAN) rest
           (AList.update i2 DOCTOR (AList.update i1 DETECTIVE (AList.update i0 MURDERER [])))
         = (i0, MURDERER) # (i1, DETECTIVE) # (i2, DOCTOR) # map (\<lambda>i. (i, CIVILIAN)) rest"
proof -
  have "AList.update i2 DOCTOR (AList.update i1 DETECTIVE (AList.update i0 MURDERER []))
          = [(i0, MURDERER), (i1, DETECTIVE), (i2, DOCTOR)]"
    using assms by auto
  moreover have "fold (\<lambda>i. AList.update i CIVILIAN) rest [(i0, MURDERER), (i1, DETECTIVE), (i2, DOCTOR)]
          = [(i0, MURDERER), (i1, DETECTIVE), (i2, DOCTOR)] @ map (\<lambda>i. (i, CIVILIAN)) rest"
    using assms by (intro fold_update_fresh) auto
  ultimately show ?thesis by simp
qed

lemma on_start_game_enough:
  assumes "getRoom c s = Some r" and "hostId r = Some i" and "4 \<le> length (players r)"
    and "assignRoles shuffle r s = (r1, s1)"
  shows "on_start_game shuffle now i c s =
     store c (r1\<lparr>phase := NIGHT, timers := Some (now + 35000)\<rparr>)
       (s1\<lparr>timeouts := timeouts s1 @ [(code r1, 35000)],
           sent := sent s1 @ [to_channel (code r1)
                     (room_state (code r1) NIGHT (map publicPlayer (map snd (players r1))))]\<rparr>)"
  using assms by (simp add: on_start_game_def setPhase_timed)


lemma four_or_more:
  "4 \<le> length ids \<Longrightarrow> \<exists>i0 i1 i2 rest. ids = i0 # i1 # i2 # rest"
  by (auto simp: eval_nat_numeral Suc_le_length_iff)

text \<open>
  C7. For a room with at least four players, whatever order the shuffle returns the
  player ids in, the assignment made by \<open>assignRoles\<close> has one MURDERER, one DETECTIVE,
  one DOCTOR and a CIVILIAN for each of the other ids, each id once, and its ids are the
  room's player ids; it is the assignment of the room once the host's \<open>start_game\<close> has
  put it in NIGHT. The keys of the \<open>players\<close> map are distinct, as the keys of a \<open>Map\<close>
  are.
\<close>

theorem assignRoles_one_of_each:
  "4 \<le> length (players r) \<and> distinct (map fst (players r)) \<and>
   mset (shuffle (map fst (players r))) = mset (map fst (players r)) \<longrightarrow>
     role_count MURDERER (assignments (fst (assignRoles shuffle r s))) = 1 \<and>
     role_count DETECTIVE (assignments (fst (assignRoles shuffle r s))) = 1 \<and>
     role_count DOCTOR (assignments (fst (assignRoles shuffle r s))) = 1 \<and>
     role_count CIVILIAN (assignments (fst (assignRoles shuffle r s))) = length (players r) - 3 \<and>
     distinct (map fst (assignments (fst (assignRoles shuffle r s)))) \<and>
     set (map fst (assignments (fst (assignRoles shuffle r s)))) = set (map fst (players r)) \<and>
     (getRoom c s = Some r \<and> hostId r = Some i \<longrightarrow>
        map_option assignments (getRoom c (on_start_game shuffle now i c s)) =
          Some (assignments (fst (assignRoles shuffle r s))) \<and>
        map_option phase (getRoom c (on_start_game shuffle now i c s)) = Some NIGHT)"
  (is "?given \<longrightarrow> ?m \<and> ?t \<and> ?d \<and> ?c \<and> ?once \<and> ?ids \<and> ?started")
proof
  assume a: ?given
  let ?shuffled = "shuffle (map fst (players r))"
  have len: "length ?shuffled = length (players r)"
    using a mset_eq_length [of ?shuffled "map fst (players r)"] by simp
  have dist: "distinct ?shuffled"
    using a mset_eq_imp_distinct_iff [of ?shuffled "map fst (players r)"] by simp
  have same: "set ?shuffled = set (map fst (players r))"
    using a mset_eq_setD [of ?shuffled "map fst (players r)"] by simp
  obtain i0 i1 i2 rest where ids: "?shuffled = i0 # i1 # i2 # rest"
    using four_or_more [of ?shuffled] a len by auto
  have asg: "assignments (fst (assignRoles shuffle r s)) =
          (i0, MURDERER) # (i1, DETECTIVE) # (i2, DOCTOR) # map (\<lambda>i. (i, CIVILIAN)) rest"
    using assignments_in_order [of i0 i1 i2 rest] dist a len
    by (simp add: assignRoles_def ids Let_def)
  have civ: "filter (\<lambda>e. snd e = CIVILIAN) (map (\<lambda>i. (i, CIVILIAN)) rest) = map (\<lambda>i. (i, CIVILIAN)) rest"
    "filter (\<lambda>e. snd e = MURDERER) (map (\<lambda>i. (i, CIVILIAN)) rest) = []"
    "filter (\<lambda>e. snd e = DETECTIVE) (map (\<lambda>i. (i, CIVILIAN)) rest) = []"
    "filter (\<lambda>e. snd e = DOCTOR) (map (\<lambda>i. (i, CIVILIAN)) rest) = []"
    by (induction rest) auto
  have n: "length rest = length (players r) - 3"
    using len ids by simp
  have keys: "map fst (assignments (fst (assignRoles shuffle r s))) = ?shuffled"
    by (simp add: asg ids comp_def)
  have st: ?started
    using on_start_game_enough
            [of c s r i shuffle "fst (assignRoles shuffle r s)" "snd (assignRoles shuffle r s)" now] a
    by (simp add: getRoom_store)
  show "?m \<and> ?t \<and> ?d \<and> ?c \<and> ?once \<and> ?ids \<and> ?started"
    unfolding keys using dist same st by (simp add: role_count_def asg civ n)
qed

theorem assignRoles_one_of_each_witness:
  "assignments (fst (assignRoles rev (table LOBBY four_alive [] no_actions) no_rooms)) =
     [(''c'', MURDERER), (''d'', DETECTIVE), (''t'', DOCTOR), (''m'', CIVILIAN)] \<and>
   role_count MURDERER
     (assignments (fst (assignRoles rev (table LOBBY four_alive [] no_actions) no_rooms))) = 1 \<and>
   role_count CIVILIAN
     (assignments (fst (assignRoles rev (table LOBBY four_alive [] no_actions) no_rooms))) = 1 \<and>
   set (map fst (assignments (fst (assignRoles rev (table LOBBY four_alive [] no_actions) no_rooms))))
     = {''m'', ''t'', ''d'', ''c''}"
proof -
  let ?r = "table LOBBY four_alive [] no_actions"
  have h: "4 \<le> length (players ?r) \<and> distinct (map fst (players ?r)) \<and>
           mset (rev (map fst (players ?r))) = mset (map fst (players ?r))"
    by (simp add: ev)
  have k: "set (map fst (players ?r)) = {''m'', ''t'', ''d'', ''c''}"
    by (simp add: ev)
  have a: "assignments (fst (assignRoles rev ?r no_rooms)) =
     [(''c'', MURDERER), (''d'', DETECTIVE), (''t'', DOCTOR), (''m'', CIVILIAN)]"
    by (simp add: assignRoles_def ev)
  have b: "role_count MURDERER (assignments (fst (assignRoles rev ?r no_rooms))) = 1 \<and>
     role_count CIVILIAN (assignments (fst (assignRoles rev ?r no_rooms))) = length (players ?r) - 3 \<and>
     set (map fst (assignments (fst (assignRoles rev ?r no_rooms)))) = set (map fst (players ?r))"
    using assignRoles_one_of_each [of ?r rev no_rooms] h by simp
  have c: "length (players ?r) - 3 = 1"
    by (simp add: ev)
  show ?thesis
    using a b c k by simp
qed

end
